theory Spec2Isabelle
  imports Complex_Main "HOL-Library.Multiset" "HOL-Library.Monad_Syntax"
begin

section \<open>Data model\<close>

text \<open>
  A symbol is a character, a sequence a list of symbols, a profile (and an alignment) a
  list of rows. The gap marker is the character \<open>-\<close>. Python raises where a list is read
  out of range or the substitution table has no entry; every such raise is the value
  \<open>None\<close> of the model.

  The substitution table \<open>blosum50\<close> is loaded from an external library, so it is a
  parameter \<open>B\<close> of every function that reads it: \<open>B a b = None\<close> where the lookup raises.
\<close>

type_synonym sequence = "char list"
type_synonym profile = "char list list"
type_synonym table = "char \<Rightarrow> char \<Rightarrow> int option"

definition gap :: char where
  "gap = CHR ''-''"

text \<open>\<open>xs[i]\<close> for an index that is never negative.\<close>

definition item :: "'a list \<Rightarrow> nat \<Rightarrow> 'a option" where
  "item xs i = (if i < length xs then Some (xs ! i) else None)"

text \<open>\<open>xs[i]\<close> for a Python integer: a negative index counts from the end.\<close>

definition py_item :: "'a list \<Rightarrow> int \<Rightarrow> 'a option" where
  "py_item xs i =
     (let n = int (length xs); k = (if i < 0 then n + i else i)
      in if 0 \<le> k \<and> k < n then Some (xs ! nat k) else None)"

text \<open>A \<open>for\<close> loop over a list whose body may raise.\<close>

fun for_each :: "('a \<Rightarrow> 's \<Rightarrow> 's option) \<Rightarrow> 'a list \<Rightarrow> 's \<Rightarrow> 's option" where
  "for_each body [] s = Some s"
| "for_each body (a # as) s =
     (case body a s of None \<Rightarrow> None | Some s' \<Rightarrow> for_each body as s')"

section \<open>Column scorer\<close>

text \<open>
  The body shared by the innermost loops of \<open>scoreAlignment\<close> and \<open>scoreColumns\<close>: the
  amount added to \<open>total\<close> for the symbols \<open>a\<close> and \<open>b\<close>.
\<close>

definition pairTerm :: "table \<Rightarrow> int \<Rightarrow> char \<Rightarrow> char \<Rightarrow> int option" where
  "pairTerm B gapPenalty a b =
     (if (a = gap) \<noteq> (b = gap) then Some (- gapPenalty)
      else if a \<noteq> gap \<and> b \<noteq> gap then B a b
      else Some 0)"

definition flipped :: "int \<Rightarrow> int" where
  "flipped gapPenalty = (if gapPenalty < 0 then gapPenalty * (- 1) else gapPenalty)"

definition scoreAlignment :: "table \<Rightarrow> profile \<Rightarrow> int \<Rightarrow> int option" where
  "scoreAlignment B alignment gapPenalty =
     (let gp = flipped gapPenalty in
      do {
        row0 \<leftarrow> item alignment 0;
        for_each (\<lambda>i. for_each (\<lambda>j. for_each (\<lambda>k total.
            do {
              rj \<leftarrow> item alignment j;
              a \<leftarrow> item rj i;
              rk \<leftarrow> item alignment k;
              b \<leftarrow> item rk i;
              s \<leftarrow> pairTerm B gp a b;
              Some (total + s)
            }) [j + 1 ..< length alignment]) [0 ..< length alignment - 1])
          [0 ..< length row0] 0
      })"

definition scoreColumns :: "table \<Rightarrow> profile \<Rightarrow> profile \<Rightarrow> nat \<Rightarrow> nat \<Rightarrow> int \<Rightarrow> int option" where
  "scoreColumns B x y i j gapPenalty =
     (let gp = flipped gapPenalty in
      for_each (\<lambda>xk. for_each (\<lambda>yl total.
          do {
            a \<leftarrow> item xk i;
            b \<leftarrow> item yl j;
            s \<leftarrow> pairTerm B gp a b;
            Some (total + s)
          }) y) x 0)"

section \<open>Profile aligner\<close>

text \<open>The traceback matrix holds the strings \<open>''\<close>, \<open>'D'\<close>, \<open>'T'\<close> and \<open>'L'\<close>.\<close>

datatype move = Unset | D | T | L

type_synonym matrices = "int list list \<times> move list list"

text \<open>\<open>m[i][j] = v\<close>\<close>

definition put :: "'a list list \<Rightarrow> nat \<Rightarrow> nat \<Rightarrow> 'a \<Rightarrow> 'a list list" where
  "put m i j v = m[i := (m ! i)[j := v]]"

text \<open>
  The body of the two nested loops that fill the weights matrix. \<open>scoreColumns\<close> is
  called without its last argument, so it runs with its default gap penalty 8.
\<close>

definition cell :: "table \<Rightarrow> profile \<Rightarrow> profile \<Rightarrow> int \<Rightarrow> nat \<Rightarrow> nat \<Rightarrow> matrices \<Rightarrow> matrices option" where
  "cell B x y d i j ft =
     (case ft of (f, t) \<Rightarrow>
        if i = 0 then Some (put f i j (- int j * d * int (length x)), put t i j L)
        else if j = 0 then Some (put f i j (- int i * d * int (length y)), put t i j T)
        else do {
          sc \<leftarrow> scoreColumns B x y (i - 1) (j - 1) 8;
          let diag = f ! (i - 1) ! (j - 1) + sc;
          let top = f ! (i - 1) ! j - d * int (length y);
          let left = f ! i ! (j - 1) - d * int (length x);
          if diag \<ge> top \<and> diag \<ge> left then Some (put f i j diag, put t i j D)
          else if top \<ge> diag \<and> top \<ge> left then Some (put f i j top, put t i j T)
          else Some (put f i j left, put t i j L)
        })"

definition weights :: "table \<Rightarrow> profile \<Rightarrow> profile \<Rightarrow> int \<Rightarrow> nat \<Rightarrow> nat \<Rightarrow> matrices option" where
  "weights B x y d lenX lenY =
     for_each (\<lambda>i. for_each (\<lambda>j. cell B x y d i j) [0 ..< lenY + 1]) [0 ..< lenX + 1]
       (replicate (lenX + 1) (replicate (lenY + 1) 0),
        replicate (lenX + 1) (replicate (lenY + 1) Unset))"

text \<open>A loop that computes one value for each element of a list, raising as soon as one raises.\<close>

fun map_opt :: "('a \<Rightarrow> 'b option) \<Rightarrow> 'a list \<Rightarrow> 'b list option" where
  "map_opt g [] = Some []"
| "map_opt g (a # as) =
     (case g a of None \<Rightarrow> None
      | Some b \<Rightarrow> (case map_opt g as of None \<Rightarrow> None | Some bs \<Rightarrow> Some (b # bs)))"

text \<open>The symbols \<open>x[k][c]\<close> for \<open>k\<close> in \<open>range(len(x))\<close>.\<close>

definition column :: "profile \<Rightarrow> int \<Rightarrow> char list option" where
  "column x c = map_opt (\<lambda>r. py_item r c) x"

text \<open>\<open>for k in range(len(p)): p[k].insert(0, col[k])\<close>\<close>

definition prepend :: "char list \<Rightarrow> profile \<Rightarrow> profile" where
  "prepend col p = map2 (#) col p"

function traceback ::
  "move list list \<Rightarrow> profile \<Rightarrow> profile \<Rightarrow> int \<Rightarrow> int \<Rightarrow> profile \<Rightarrow> profile \<Rightarrow> (profile \<times> profile) option" where
  "traceback t x y i j xp yp =
     (if i + j > 0 then
        (case py_item t i of None \<Rightarrow> None
         | Some ti \<Rightarrow>
            (case py_item ti j of None \<Rightarrow> None
             | Some m \<Rightarrow>
                if m = D then
                  (case column x (i - 1) of None \<Rightarrow> None
                   | Some cx \<Rightarrow>
                      (case column y (j - 1) of None \<Rightarrow> None
                       | Some cy \<Rightarrow>
                          traceback t x y (i - 1) (j - 1) (prepend cx xp) (prepend cy yp)))
                else if m = T then
                  (case column x (i - 1) of None \<Rightarrow> None
                   | Some cx \<Rightarrow>
                      traceback t x y (i - 1) j (prepend cx xp) (map ((#) gap) yp))
                else
                  (case column y (j - 1) of None \<Rightarrow> None
                   | Some cy \<Rightarrow>
                      traceback t x y i (j - 1) (map ((#) gap) xp) (prepend cy yp))))
      else Some (xp, yp))"
  by pat_completeness auto
termination
  by (relation "measure (\<lambda>(t, x, y, i, j, xp, yp). nat (i + j))") auto

definition alignProfiles :: "table \<Rightarrow> profile \<Rightarrow> profile \<Rightarrow> int \<Rightarrow> (int \<times> profile \<times> profile) option" where
  "alignProfiles B x y d =
     do {
       x0 \<leftarrow> item x 0;
       y0 \<leftarrow> item y 0;
       let lenX = length x0;
       let lenY = length y0;
       (f, t) \<leftarrow> weights B x y d lenX lenY;
       (xp, yp) \<leftarrow> traceback t x y (int lenX) (int lenY)
                     (replicate (length x) []) (replicate (length y) []);
       Some (f ! lenX ! lenY, xp, yp)
     }"

section \<open>Refinement driver\<close>

text \<open>
  The temperature \<open>t\<close>, the cooling factor \<open>m\<close> and the fraction \<open>y\<close> are Python floats;
  the model computes with real numbers, so rounding and overflow are not modelled.

  The global random generator is made explicit: \<open>ri\<close> is the stream of raw values behind
  \<open>random.randrange\<close> and \<open>ru\<close> the stream of values returned by \<open>random.random\<close>; the state
  counts how many of each have been consumed. \<open>randrange(n)\<close> raises for \<open>n = 0\<close> and
  otherwise returns a value below \<open>n\<close>; every value below \<open>n\<close> is \<open>r mod n\<close> for some raw \<open>r\<close>.
\<close>

definition randrange :: "nat \<Rightarrow> nat \<Rightarrow> nat option" where
  "randrange r n = (if n = 0 then None else Some (r mod n))"

text \<open>\<open>xs.pop(i)\<close>: the element removed and the list that remains.\<close>

definition pop :: "'a list \<Rightarrow> nat \<Rightarrow> ('a \<times> 'a list) option" where
  "pop xs i = (if i < length xs then Some (xs ! i, take i xs @ drop (Suc i) xs) else None)"

text \<open>
  The loading-bar loop \<open>while t > 1: n += 1; t = t * m\<close>. It assigns to \<open>t\<close> itself, so
  it returns the final \<open>t\<close> together with \<open>n\<close>. \<open>None\<close> is the loop that never ends.
\<close>

partial_function (option) cooling :: "real \<Rightarrow> real \<Rightarrow> nat \<Rightarrow> (nat \<times> real) option" where
  "cooling t m n = (if t > 1 then cooling (t * m) m (n + 1) else Some (n, t))"

record state =
  alignment :: profile
  counter :: nat
  temp :: real
  ki :: nat
  ku :: nat

text \<open>
  The loop that removes \<open>numRealignedSequences\<close> random rows and strips their gaps; \<open>p\<close> is
  the position in the stream \<open>ri\<close>.
\<close>

fun removeRows ::
  "(nat \<Rightarrow> nat) \<Rightarrow> nat \<Rightarrow> profile \<Rightarrow> nat \<Rightarrow> sequence list \<Rightarrow> (profile \<times> sequence list \<times> nat) option" where
  "removeRows ri 0 al p sequences = Some (al, sequences, p)"
| "removeRows ri (Suc k) al p sequences =
     (case randrange (ri p) (length al) of None \<Rightarrow> None
      | Some index \<Rightarrow>
         (case pop al index of None \<Rightarrow> None
          | Some (row, al') \<Rightarrow>
             removeRows ri k al' (Suc p) (sequences @ [filter (\<lambda>e. e \<noteq> gap) row])))"

text \<open>The loop over the rows that looks for a symbol in column \<open>i\<close>, with its \<open>break\<close>.\<close>

fun columnHasSymbol :: "profile \<Rightarrow> nat \<Rightarrow> bool option" where
  "columnHasSymbol [] i = Some False"
| "columnHasSymbol (r # rs) i =
     (case item r i of None \<Rightarrow> None
      | Some c \<Rightarrow> if c \<noteq> gap then Some True else columnHasSymbol rs i)"

definition nullColumnIndexes :: "profile \<Rightarrow> nat list option" where
  "nullColumnIndexes al =
     do {
       row0 \<leftarrow> item al 0;
       for_each (\<lambda>i acc.
           do {
             h \<leftarrow> columnHasSymbol al i;
             Some (if \<not> h then i # acc else acc)
           }) [0 ..< length row0] []
     }"

definition removeColumns :: "nat list \<Rightarrow> profile \<Rightarrow> profile option" where
  "removeColumns indexes al =
     for_each (\<lambda>index. map_opt (\<lambda>r. map_option snd (pop r index))) indexes al"

definition realign :: "table \<Rightarrow> int \<Rightarrow> sequence list \<Rightarrow> profile \<Rightarrow> profile option" where
  "realign B d sequences al =
     for_each (\<lambda>sequence al.
         do {
           (s, xp, yp) \<leftarrow> alignProfiles B al [sequence] d;
           y0 \<leftarrow> item yp 0;
           Some (xp @ [y0])
         }) sequences al"

text \<open>
  The acceptance rule. Its result says whether the candidate is assigned to \<open>prevProfile\<close>
  and \<open>prevScore\<close>; both are assigned again at the start of the next cycle and read nowhere
  else, so the result does not enter the state. The division raises for \<open>t = 0\<close>.
\<close>

definition acceptance :: "real \<Rightarrow> int \<Rightarrow> int \<Rightarrow> real \<Rightarrow> bool option" where
  "acceptance u newScore prevScore t =
     (if newScore \<le> prevScore then
        (if t = 0 then None
         else Some (u \<le> exp (real_of_int (newScore - prevScore) / t)))
      else Some True)"

text \<open>The alignment built by one cycle: rows removed, null columns deleted, rows re-inserted.\<close>

definition candidate ::
  "table \<Rightarrow> (nat \<Rightarrow> nat) \<Rightarrow> nat \<Rightarrow> int \<Rightarrow> profile \<Rightarrow> nat \<Rightarrow> (profile \<times> nat) option" where
  "candidate B ri k d al p =
     do {
       (al1, sequences, p') \<leftarrow> removeRows ri k al p [];
       indexes \<leftarrow> nullColumnIndexes al1;
       al2 \<leftarrow> removeColumns indexes al1;
       al3 \<leftarrow> realign B d sequences al2;
       Some (al3, p')
     }"

definition cycle ::
  "table \<Rightarrow> (nat \<Rightarrow> nat) \<Rightarrow> (nat \<Rightarrow> real) \<Rightarrow> nat \<Rightarrow> int \<Rightarrow> real \<Rightarrow> state \<Rightarrow> state option" where
  "cycle B ri ru k d m s =
     do {
       prevScore \<leftarrow> scoreAlignment B (alignment s) d;
       (al, p') \<leftarrow> candidate B ri k d (alignment s) (ki s);
       newScore \<leftarrow> scoreAlignment B al d;
       accepted \<leftarrow> acceptance (ru (ku s)) newScore prevScore (temp s);
       Some \<lparr>alignment = al,
             counter = (if newScore = prevScore then counter s + 1 else 0),
             temp = temp s * m,
             ki = p',
             ku = (if newScore \<le> prevScore then ku s + 1 else ku s)\<rparr>
     }"

text \<open>The loop \<open>for i in range(n)\<close> with its \<open>break\<close>.\<close>

fun cycles ::
  "table \<Rightarrow> (nat \<Rightarrow> nat) \<Rightarrow> (nat \<Rightarrow> real) \<Rightarrow> nat \<Rightarrow> int \<Rightarrow> real \<Rightarrow> nat \<Rightarrow> state \<Rightarrow> state option" where
  "cycles B ri ru k d m 0 s = Some s"
| "cycles B ri ru k d m (Suc n) s =
     (if counter s \<ge> 7 then Some s
      else (case cycle B ri ru k d m s of None \<Rightarrow> None
            | Some s' \<Rightarrow> cycles B ri ru k d m n s'))"

definition coerced :: "real \<Rightarrow> real" where
  "coerced m = (if m \<ge> 1 then 0.95 else m)"

definition numRealignedSequences :: "profile \<Rightarrow> real \<Rightarrow> int" where
  "numRealignedSequences al y =
     (if y = 0 then 1
      else (let c = \<lceil>real (length al) * y\<rceil>
            in if c = int (length al) then c - 1 else c))"

text \<open>The state in which the first cycle starts.\<close>

definition start :: "profile \<Rightarrow> real \<Rightarrow> real \<Rightarrow> (nat \<times> state) option" where
  "start al t m =
     do {
       (n, t') \<leftarrow> cooling t (coerced m) 0;
       Some (n, \<lparr>alignment = al, counter = 0, temp = t', ki = 0, ku = 0\<rparr>)
     }"

definition iterate ::
  "table \<Rightarrow> (nat \<Rightarrow> nat) \<Rightarrow> (nat \<Rightarrow> real) \<Rightarrow> profile \<Rightarrow> real \<Rightarrow> real \<Rightarrow> real \<Rightarrow> int \<Rightarrow> (int \<times> profile) option" where
  "iterate B ri ru al t m y d =
     do {
       (n, s0) \<leftarrow> start al t m;
       s \<leftarrow> cycles B ri ru (nat (numRealignedSequences al y)) d (coerced m) n s0;
       sc \<leftarrow> scoreAlignment B (alignment s) d;
       Some (sc, alignment s)
     }"

declare cooling.simps [code]

section \<open>Predicates of the specification\<close>

text \<open>A profile is rectangular when every row has the length of row 0.\<close>

definition rectangular :: "profile \<Rightarrow> bool" where
  "rectangular p = (\<forall>r \<in> set p. length r = length (hd p))"

text \<open>The table has an entry for every pair of symbols that the two profiles can bring together.\<close>

definition covers :: "table \<Rightarrow> profile \<Rightarrow> profile \<Rightarrow> bool" where
  "covers B x y =
     (\<forall>xr \<in> set x. \<forall>yr \<in> set y. \<forall>a \<in> set xr. \<forall>b \<in> set yr.
        a \<noteq> gap \<longrightarrow> b \<noteq> gap \<longrightarrow> B a b \<noteq> None)"

text \<open>\<open>gapped r r'\<close>: the row \<open>r'\<close> is the row \<open>r\<close> with zero or more gap symbols inserted.\<close>

fun gapped :: "char list \<Rightarrow> char list \<Rightarrow> bool" where
  "gapped r [] = (r = [])"
| "gapped [] (c' # r') = (c' = gap \<and> gapped [] r')"
| "gapped (c # r) (c' # r') = ((c' = c \<and> gapped r r') \<or> (c' = gap \<and> gapped (c # r) r'))"

text \<open>Column \<open>c\<close> of the profile holds a symbol that is not the gap.\<close>

definition has_symbol :: "profile \<Rightarrow> nat \<Rightarrow> bool" where
  "has_symbol p c = (\<exists>r \<in> set p. c < length r \<and> r ! c \<noteq> gap)"

definition strip :: "char list \<Rightarrow> char list" where
  "strip r = filter (\<lambda>e. e \<noteq> gap) r"

text \<open>The two matrices have \<open>lenX + 1\<close> rows of \<open>lenY + 1\<close> entries.\<close>

definition dims :: "matrices \<Rightarrow> nat \<Rightarrow> nat \<Rightarrow> bool" where
  "dims ft lenX lenY =
     (case ft of (f, t) \<Rightarrow>
        length f = lenX + 1 \<and> length t = lenX + 1 \<and>
        (\<forall>k \<le> lenX. length (f ! k) = lenY + 1) \<and> (\<forall>k \<le> lenX. length (t ! k) = lenY + 1))"

text \<open>Entry \<open>(i, j)\<close> of both matrices holds what the loop body writes there.\<close>

definition filled :: "table \<Rightarrow> profile \<Rightarrow> profile \<Rightarrow> int \<Rightarrow> matrices \<Rightarrow> nat \<Rightarrow> nat \<Rightarrow> bool" where
  "filled B x y d ft i j =
     (case ft of (f, t) \<Rightarrow>
        if i = 0 then f ! i ! j = - int j * d * int (length x) \<and> t ! i ! j = L
        else if j = 0 then f ! i ! j = - int i * d * int (length y) \<and> t ! i ! j = T
        else (case scoreColumns B x y (i - 1) (j - 1) 8 of None \<Rightarrow> False
              | Some sc \<Rightarrow>
                 (let diag = f ! (i - 1) ! (j - 1) + sc;
                      top = f ! (i - 1) ! j - d * int (length y);
                      left = f ! i ! (j - 1) - d * int (length x)
                  in f ! i ! j = max diag (max top left) \<and>
                     t ! i ! j = (if diag \<ge> top \<and> diag \<ge> left then D
                                  else if top \<ge> left then T else L))))"

text \<open>
  The traceback matrix has its full size, \<open>L\<close> along row 0 and \<open>T\<close> along column 0
  (entry \<open>(0, 0)\<close> apart).
\<close>

definition borders :: "move list list \<Rightarrow> nat \<Rightarrow> nat \<Rightarrow> bool" where
  "borders t lenX lenY =
     (length t = lenX + 1 \<and> (\<forall>i \<le> lenX. length (t ! i) = lenY + 1) \<and>
      (\<forall>j. 1 \<le> j \<and> j \<le> lenY \<longrightarrow> t ! 0 ! j = L) \<and>
      (\<forall>i. 1 \<le> i \<and> i \<le> lenX \<longrightarrow> t ! i ! 0 = T))"

text \<open>
  What the traceback loop has built when it stands at column \<open>i\<close> of \<open>x\<close>: every row of \<open>xp\<close>
  has received \<open>n\<close> entries at its front, and these are the first \<open>i\<close> entries of the row of
  \<open>x\<close> with gaps inserted.
\<close>

definition grown :: "profile \<Rightarrow> nat \<Rightarrow> profile \<Rightarrow> profile \<Rightarrow> nat \<Rightarrow> bool" where
  "grown x i xp xp' n =
     (length xp' = length x \<and>
      (\<forall>k < length x. \<exists>u. xp' ! k = u @ xp ! k \<and> length u = n \<and> gapped (take i (x ! k)) u))"

text \<open>The equation of \<open>traceback\<close> is unfolded by hand, one loop iteration at a time.\<close>

declare traceback.simps [simp del]


section \<open>The reference algorithm of the specification\<close>

text \<open>
  Classical pairwise Needleman--Wunsch with linear gap penalty \<open>d\<close>, written from the words
  of the specification for two bare sequences \<open>a\<close> and \<open>b\<close> and a score \<open>s\<close> of two symbols:
  \<open>F(i, 0) = -i d\<close>, \<open>F(0, j) = -j d\<close>, and \<open>F(i, j)\<close> is the maximum of
  \<open>F(i - 1, j - 1) + s(a\<^sub>i, b\<^sub>j)\<close>, \<open>F(i - 1, j) - d\<close> and \<open>F(i, j - 1) - d\<close>.
\<close>

fun nw_F :: "(char \<Rightarrow> char \<Rightarrow> int) \<Rightarrow> int \<Rightarrow> sequence \<Rightarrow> sequence \<Rightarrow> nat \<Rightarrow> nat \<Rightarrow> int" where
  "nw_F s d a b 0 j = - int j * d"
| "nw_F s d a b (Suc i) 0 = - int (Suc i) * d"
| "nw_F s d a b (Suc i) (Suc j) =
     max (nw_F s d a b i j + s (a ! i) (b ! j))
       (max (nw_F s d a b i (Suc j) - d) (nw_F s d a b (Suc i) j - d))"

text \<open>One more column at the end of a pair of gapped sequences.\<close>

definition nw_extend :: "char \<Rightarrow> char \<Rightarrow> sequence \<times> sequence \<Rightarrow> sequence \<times> sequence" where
  "nw_extend p q uv = (fst uv @ [p], snd uv @ [q])"

text \<open>
  The alignment of the first \<open>i\<close> symbols of \<open>a\<close> with the first \<open>j\<close> symbols of \<open>b\<close> that the
  traceback of the specification reads off: the last column is the branch that attains the
  maximum, the diagonal before the top (gap in \<open>b\<close>) before the left (gap in \<open>a\<close>).
\<close>

fun nw_path ::
  "(char \<Rightarrow> char \<Rightarrow> int) \<Rightarrow> int \<Rightarrow> sequence \<Rightarrow> sequence \<Rightarrow> nat \<Rightarrow> nat \<Rightarrow> sequence \<times> sequence" where
  "nw_path s d a b 0 0 = ([], [])"
| "nw_path s d a b 0 (Suc j) = nw_extend gap (b ! j) (nw_path s d a b 0 j)"
| "nw_path s d a b (Suc i) 0 = nw_extend (a ! i) gap (nw_path s d a b i 0)"
| "nw_path s d a b (Suc i) (Suc j) =
     (if nw_F s d a b i j + s (a ! i) (b ! j) \<ge> nw_F s d a b i (Suc j) - d \<and>
         nw_F s d a b i j + s (a ! i) (b ! j) \<ge> nw_F s d a b (Suc i) j - d
      then nw_extend (a ! i) (b ! j) (nw_path s d a b i j)
      else if nw_F s d a b i (Suc j) - d \<ge> nw_F s d a b (Suc i) j - d
      then nw_extend (a ! i) gap (nw_path s d a b i (Suc j))
      else nw_extend gap (b ! j) (nw_path s d a b (Suc i) j))"

definition needleman_wunsch ::
  "(char \<Rightarrow> char \<Rightarrow> int) \<Rightarrow> int \<Rightarrow> sequence \<Rightarrow> sequence \<Rightarrow> int \<times> sequence \<times> sequence" where
  "needleman_wunsch s d a b =
     (nw_F s d a b (length a) (length b), nw_path s d a b (length a) (length b))"

section \<open>Concrete inputs\<close>

text \<open>
  The entries of the standard BLOSUM50 matrix for the residues A, E, G, H, P and W; every
  other pair has no entry. The table is symmetric.
\<close>

definition blosum50_AEGHPW :: table where
  "blosum50_AEGHPW a b =
     (let tab = [((CHR ''A'', CHR ''A''), 5), ((CHR ''E'', CHR ''E''), 6), ((CHR ''G'', CHR ''G''), 8),
                 ((CHR ''H'', CHR ''H''), 10), ((CHR ''P'', CHR ''P''), 10), ((CHR ''W'', CHR ''W''), 15),
                 ((CHR ''A'', CHR ''E''), - 1), ((CHR ''A'', CHR ''G''), 0), ((CHR ''A'', CHR ''H''), - 2),
                 ((CHR ''A'', CHR ''P''), - 1), ((CHR ''A'', CHR ''W''), - 3), ((CHR ''E'', CHR ''G''), - 3),
                 ((CHR ''E'', CHR ''H''), 0), ((CHR ''E'', CHR ''P''), - 1), ((CHR ''E'', CHR ''W''), - 3),
                 ((CHR ''G'', CHR ''H''), - 2), ((CHR ''G'', CHR ''P''), - 2), ((CHR ''G'', CHR ''W''), - 3),
                 ((CHR ''H'', CHR ''P''), - 2), ((CHR ''H'', CHR ''W''), - 3), ((CHR ''P'', CHR ''W''), - 4)]
      in case map_of tab (a, b) of Some v \<Rightarrow> Some v | None \<Rightarrow> map_of tab (b, a))"

text \<open>Random streams: every index draw is 0, or 3; every uniform draw is one half.\<close>

definition first_index :: "nat \<Rightarrow> nat" where
  "first_index p = 0"

definition fourth_index :: "nat \<Rightarrow> nat" where
  "fourth_index p = 3"

definition one_half :: "nat \<Rightarrow> real" where
  "one_half p = 1 / 2"

section \<open>Loops and indexing\<close>

lemma item_Some: "item xs i = Some a \<longleftrightarrow> i < length xs \<and> xs ! i = a"
  by (auto simp: item_def)

lemma item_None: "item xs i = None \<longleftrightarrow> length xs \<le> i"
  by (auto simp: item_def)

lemma py_item_nat: "0 \<le> i \<Longrightarrow> py_item xs i = item xs (nat i)"
  by (auto simp: py_item_def item_def Let_def)

lemma for_each_append:
  "for_each body (as @ bs) s =
     (case for_each body as s of None \<Rightarrow> None | Some s' \<Rightarrow> for_each body bs s')"
  by (induction as arbitrary: s) (auto split: option.splits)

lemma for_each_upt_Suc:
  "for_each body [0 ..< Suc n] s =
     (case for_each body [0 ..< n] s of None \<Rightarrow> None | Some s' \<Rightarrow> body n s')"
  by (simp add: for_each_append split: option.splits)

lemma for_each_upt_inv:
  assumes "for_each body [0 ..< n] s = Some s'"
    and "I 0 s"
    and "\<forall>k s1 s2. k < n \<longrightarrow> I k s1 \<longrightarrow> body k s1 = Some s2 \<longrightarrow> I (Suc k) s2"
  shows "I n s'"
  using assms
proof (induction n arbitrary: s')
  case 0
  then show ?case by simp
next
  case (Suc n)
  from Suc.prems(1) obtain s1 where 1: "for_each body [0 ..< n] s = Some s1" and 2: "body n s1 = Some s'"
    by (auto simp: for_each_upt_Suc simp del: upt_Suc split: option.splits)
  have 3: "\<forall>k s1 s2. k < n \<longrightarrow> I k s1 \<longrightarrow> body k s1 = Some s2 \<longrightarrow> I (Suc k) s2"
    using Suc.prems(3) by (simp add: less_Suc_eq)
  have "I n s1"
    by (rule Suc.IH [OF 1 Suc.prems(2) 3])
  then show ?case using Suc.prems(3) 2 by blast
qed

lemma for_each_upt_total:
  assumes "I 0 s"
    and "\<forall>k s1. k < n \<longrightarrow> I k s1 \<longrightarrow> (\<exists>s2. body k s1 = Some s2 \<and> I (Suc k) s2)"
  shows "\<exists>s'. for_each body [0 ..< n] s = Some s' \<and> I n s'"
  using assms
proof (induction n)
  case 0
  then show ?case by simp
next
  case (Suc n)
  have 3: "\<forall>k s1. k < n \<longrightarrow> I k s1 \<longrightarrow> (\<exists>s2. body k s1 = Some s2 \<and> I (Suc k) s2)"
    using Suc.prems(2) by (simp add: less_Suc_eq)
  obtain s1 where 1: "for_each body [0 ..< n] s = Some s1" and 2: "I n s1"
    using Suc.IH [OF Suc.prems(1) 3] by blast
  from Suc.prems(2) 2 obtain s2 where "body n s1 = Some s2" "I (Suc n) s2"
    by blast
  then show ?case using 1 by (simp add: for_each_upt_Suc del: upt_Suc)
qed

lemma map_opt_SomeD:
  "map_opt g xs = Some ys \<Longrightarrow> list_all2 (\<lambda>x y. g x = Some y) xs ys"
  by (induction xs arbitrary: ys) (auto split: option.splits)

lemma map_opt_SomeI:
  "list_all2 (\<lambda>x y. g x = Some y) xs ys \<Longrightarrow> map_opt g xs = Some ys"
  by (induction rule: list_all2_induct) auto

lemma put_nth:
  "i < length m \<Longrightarrow> j < length (m ! i) \<Longrightarrow>
   put m i j v ! i' ! j' = (if i' = i \<and> j' = j then v else m ! i' ! j')"
  by (auto simp: put_def nth_list_update)

lemma put_length [simp]: "length (put m i j v) = length m"
  by (simp add: put_def)

lemma put_row_length: "i' < length m \<Longrightarrow> length (put m i j v ! i') = length (m ! i')"
  by (cases "i' = i") (auto simp: put_def)

section \<open>Gap penalty sign\<close>

lemma flipped_minus: "flipped (- d) = flipped d"
  by (simp add: flipped_def)

lemma scoreAlignment_minus: "scoreAlignment B al (- d) = scoreAlignment B al d"
  by (simp add: scoreAlignment_def flipped_minus)

lemma scoreColumns_minus: "scoreColumns B x y i j (- d) = scoreColumns B x y i j d"
  by (simp add: scoreColumns_def flipped_minus)

text \<open>
  Claim C9: a negative gap penalty gives the same result as its magnitude in
  \<open>scoreAlignment\<close>, \<open>scoreColumns\<close> and \<open>alignProfiles\<close>. The two scorers flip the sign
  (\<open>scoreAlignment_minus\<close>, \<open>scoreColumns_minus\<close>); \<open>alignProfiles\<close> uses \<open>d\<close> as it is given.
  For the one-row profiles \<open>A\<close> and \<open>A\<close> the penalty \<open>-8\<close> gives score 16 and the rows
  \<open>-A\<close>, \<open>A-\<close>, the penalty 8 gives score 5 and the rows \<open>A\<close>, \<open>A\<close>.
\<close>

theorem alignProfiles_negative_penalty:
  "alignProfiles blosum50_AEGHPW [''A''] [''A''] (- 8) = Some (16, [''-A''], [''A-'']) \<and>
   alignProfiles blosum50_AEGHPW [''A''] [''A''] 8 = Some (5, [''A''], [''A''])"
  by code_simp

section \<open>Cooling schedule\<close>

text \<open>
  Claim C4: the first cycle of \<open>iterate\<close> runs at the configured temperature \<open>t\<close>. The
  loading-bar loop has already multiplied \<open>t\<close> by \<open>m\<close> until it is at most 1: for
  \<open>t = 10\<close> and \<open>m = 0.5\<close> it counts 4 cycles and the first of them starts at \<open>0.625\<close>.
\<close>

theorem first_cycle_temperature:
  "map_option (\<lambda>(n, s). (n, temp s)) (start [''A'', ''A''] 10 (1 / 2)) = Some (4, 5 / 8)"
  by (simp add: start_def coerced_def cooling.simps)

lemma scoreAlignment_AA: "scoreAlignment blosum50_AEGHPW [''A'', ''A''] 8 = Some 5"
  by code_simp

lemma candidate_AA:
  "candidate blosum50_AEGHPW first_index (Suc 0) 8 [''A'', ''A''] 0 = Some ([''A'', ''A''], 1)"
  by code_simp

lemma cycle_AA_zero:
  "cycle blosum50_AEGHPW first_index one_half (Suc 0) 8 0
     \<lparr>alignment = [''A'', ''A''], counter = 0, temp = 0, ki = 0, ku = 0\<rparr> = None"
  by (simp add: cycle_def scoreAlignment_AA candidate_AA acceptance_def)

lemma cycle_AA_default:
  "cycle blosum50_AEGHPW first_index one_half (Suc 0) 8 (19 / 20)
     \<lparr>alignment = [''A'', ''A''], counter = 0, temp = 399 / 400, ki = 0, ku = 0\<rparr> =
   Some \<lparr>alignment = [''A'', ''A''], counter = 1, temp = 399 / 400 * (19 / 20), ki = 1, ku = 1\<rparr>"
  by (simp add: cycle_def scoreAlignment_AA candidate_AA acceptance_def)

lemma iterate_AA_zero:
  "iterate blosum50_AEGHPW first_index one_half [''A'', ''A''] (21 / 20) 0 0 8 = None"
  by (simp add: iterate_def start_def coerced_def cooling.simps numRealignedSequences_def
      cycle_AA_zero)

lemma iterate_AA_default:
  "iterate blosum50_AEGHPW first_index one_half [''A'', ''A''] (21 / 20) 0.95 0 8 =
   Some (5, [''A'', ''A''])"
  by (simp add: iterate_def start_def coerced_def cooling.simps numRealignedSequences_def
      cycle_AA_default scoreAlignment_AA)

text \<open>
  Claim C8, as stated: every cooling factor outside the open interval (0, 1) is replaced by
  0.95. It fails for \<open>m = 0\<close>: with \<open>t = 1.05\<close> the call with \<open>m = 0\<close> divides by the
  temperature 0 in its first cycle and raises, the call with \<open>m = 0.95\<close> returns.
\<close>

theorem iterate_zero_factor_not_default:
  "iterate blosum50_AEGHPW first_index one_half [''A'', ''A''] (21 / 20) 0 0 8 \<noteq>
   iterate blosum50_AEGHPW first_index one_half [''A'', ''A''] (21 / 20) 0.95 0 8"
  by (simp only: iterate_AA_zero iterate_AA_default) simp

text \<open>
  Claim C8, amended: every cooling factor \<open>m \<ge> 1\<close> is replaced by 0.95, so \<open>iterate\<close> behaves
  exactly as if called with \<open>m = 0.95\<close>.
\<close>

theorem iterate_large_factor_is_default:
  "1 \<le> m \<Longrightarrow> iterate B ri ru al t m y d = iterate B ri ru al t 0.95 y d"
  by (simp add: iterate_def start_def coerced_def)

theorem iterate_large_factor_is_default_witness:
  "(1::real) \<le> 2 \<and>
   iterate blosum50_AEGHPW first_index one_half [''A'', ''A''] (21 / 20) 2 0 8 =
   iterate blosum50_AEGHPW first_index one_half [''A'', ''A''] (21 / 20) 0.95 0 8"
  using iterate_large_factor_is_default [of 2 blosum50_AEGHPW first_index one_half "[''A'', ''A'']" "21 / 20" 0 8]
  by simp

section \<open>The weights matrix\<close>

lemma cell_put:
  "cell B x y d i j (f, t) = Some ft' \<Longrightarrow> \<exists>v w. ft' = (put f i j v, put t i j w)"
  by (auto simp: cell_def Let_def split: if_splits Option.bind_splits)

lemma dims_put:
  "dims (f, t) lenX lenY \<Longrightarrow> dims (put f i j v, put t i j w) lenX lenY"
  by (auto simp: dims_def put_row_length)

lemma filled_put_before:
  assumes "dims (f, t) lenX lenY" "i \<le> lenX" "j \<le> lenY"
    and "i' < i \<or> (i' = i \<and> j' < j)"
  shows "filled B x y d (put f i j v, put t i j w) i' j' = filled B x y d (f, t) i' j'"
proof -
  have len: "i < length f" "j < length (f ! i)" "i < length t" "j < length (t ! i)"
    using assms(1-3) by (auto simp: dims_def)
  have 1: "put f i j v ! i' ! j' = f ! i' ! j'" "put t i j w ! i' ! j' = t ! i' ! j'"
    using assms(4) len by (auto simp: put_nth)
  have 2: "put f i j v ! (i' - 1) ! (j' - 1) = f ! (i' - 1) ! (j' - 1)"
    "put f i j v ! (i' - 1) ! j' = f ! (i' - 1) ! j'"
    "put f i j v ! i' ! (j' - 1) = f ! i' ! (j' - 1)"
    if "i' \<noteq> 0" "j' \<noteq> 0"
    using assms(4) len that by (auto simp: put_nth)
  show ?thesis
  proof (cases "i' = 0 \<or> j' = 0")
    case True
    then show ?thesis using 1 by (auto simp: filled_def)
  next
    case False
    then show ?thesis using 1 2 by (simp add: filled_def Let_def split: option.splits)
  qed
qed

lemma filled_here:
  assumes "dims (f, t) lenX lenY" "i \<le> lenX" "j \<le> lenY"
    and "cell B x y d i j (f, t) = Some ft'"
  shows "filled B x y d ft' i j"
proof -
  have len: "i < length f" "j < length (f ! i)" "i < length t" "j < length (t ! i)"
    using assms(1-3) by (auto simp: dims_def)
  have here: "put f i j v ! i ! j = v" "put t i j w ! i ! j = w" for v w
    using len by (simp_all add: put_nth)
  show ?thesis
  proof (cases "i = 0 \<or> j = 0")
    case True
    then have "ft' = (if i = 0 then (put f i j (- int j * d * int (length x)), put t i j L)
        else (put f i j (- int i * d * int (length y)), put t i j T))"
      using assms(4) by (auto simp: cell_def)
    then show ?thesis
      using True here by (cases "i = 0") (simp_all add: filled_def)
  next
    case False
    then have i0: "i \<noteq> 0" and j0: "j \<noteq> 0" by simp_all
    obtain sc where sc: "scoreColumns B x y (i - 1) (j - 1) 8 = Some sc"
      using assms(4) i0 j0 by (cases "scoreColumns B x y (i - 1) (j - 1) 8") (simp_all add: cell_def)
    define diag where "diag = f ! (i - 1) ! (j - 1) + sc"
    define top where "top = f ! (i - 1) ! j - d * int (length y)"
    define left where "left = f ! i ! (j - 1) - d * int (length x)"
    have nb: "put f i j v ! (i - 1) ! (j - 1) = f ! (i - 1) ! (j - 1)"
      "put f i j v ! (i - 1) ! j = f ! (i - 1) ! j"
      "put f i j v ! i ! (j - 1) = f ! i ! (j - 1)" for v
      using i0 j0 len by (auto simp: put_nth)
    have "cell B x y d i j (f, t) =
        Some (if diag \<ge> top \<and> diag \<ge> left then (put f i j diag, put t i j D)
        else if top \<ge> diag \<and> top \<ge> left then (put f i j top, put t i j T)
        else (put f i j left, put t i j L))"
      using i0 j0 sc by (simp add: cell_def Let_def diag_def top_def left_def)
    then have ft': "ft' = (if diag \<ge> top \<and> diag \<ge> left then (put f i j diag, put t i j D)
        else if top \<ge> diag \<and> top \<ge> left then (put f i j top, put t i j T)
        else (put f i j left, put t i j L))"
      using assms(4) by simp
    have goal: "filled B x y d (put f i j v, put t i j w) i j \<longleftrightarrow>
        v = max diag (max top left) \<and>
        w = (if diag \<ge> top \<and> diag \<ge> left then D else if top \<ge> left then T else L)" for v w
      using i0 j0 sc nb [of v] here(1) [of v] here(2) [of w]
      by (simp add: filled_def Let_def diag_def top_def left_def)
    consider (d) "diag \<ge> top \<and> diag \<ge> left"
      | (t) "\<not> (diag \<ge> top \<and> diag \<ge> left)" "top \<ge> diag \<and> top \<ge> left"
      | (l) "\<not> (diag \<ge> top \<and> diag \<ge> left)" "\<not> (top \<ge> diag \<and> top \<ge> left)"
      by blast
    then show ?thesis
    proof cases
      case d
      have "ft' = (put f i j diag, put t i j D)"
        by (simp only: ft' d if_True simp_thms)
      then show ?thesis using d by (simp only: goal) (auto simp: max_def)
    next
      case t
      have "ft' = (put f i j top, put t i j T)"
        by (simp only: ft' t if_False if_True simp_thms)
      then show ?thesis using t by (simp only: goal) (auto simp: max_def)
    next
      case l
      have "ft' = (put f i j left, put t i j L)"
        by (simp only: ft' l if_False simp_thms)
      then show ?thesis using l by (simp only: goal) (auto simp: max_def)
    qed
  qed
qed

lemma cell_step:
  assumes "dims ft lenX lenY" "i \<le> lenX" "j \<le> lenY"
    and "cell B x y d i j ft = Some ft'"
  shows "dims ft' lenX lenY" and "filled B x y d ft' i j"
    and "i' < i \<or> (i' = i \<and> j' < j) \<Longrightarrow> filled B x y d ft' i' j' = filled B x y d ft i' j'"
proof -
  obtain f t where ft: "ft = (f, t)" by (cases ft)
  obtain v w where ft': "ft' = (put f i j v, put t i j w)"
    using cell_put assms(4) ft by blast
  show "dims ft' lenX lenY" using assms(1) ft ft' dims_put by simp
  show "filled B x y d ft' i j" using filled_here assms ft by simp
  show "filled B x y d ft' i' j' = filled B x y d ft i' j'" if "i' < i \<or> (i' = i \<and> j' < j)"
    using filled_put_before [OF assms(1) [unfolded ft] assms(2,3) that] ft ft' by simp
qed

lemma row_filled:
  assumes "for_each (\<lambda>j. cell B x y d i j) [0 ..< lenY + 1] ft = Some ft'"
    and "dims ft lenX lenY" "i \<le> lenX"
    and "\<forall>i' < i. \<forall>j' \<le> lenY. filled B x y d ft i' j'"
  shows "dims ft' lenX lenY \<and> (\<forall>i' < Suc i. \<forall>j' \<le> lenY. filled B x y d ft' i' j')"
proof -
  let ?I = "\<lambda>j ft. dims ft lenX lenY \<and> (\<forall>i' < i. \<forall>j' \<le> lenY. filled B x y d ft i' j')
      \<and> (\<forall>j' < j. filled B x y d ft i j')"
  have init: "?I 0 ft" using assms by simp
  have step1: "?I (Suc k) s2"
    if k: "k < lenY + 1" and I: "?I k s1" and c: "cell B x y d i k s1 = Some s2" for k s1 s2
  proof -
    have kl: "k \<le> lenY" using k by simp
    note st = cell_step [OF conjunct1 [OF I] assms(3) kl c]
    have "\<forall>i' < i. \<forall>j' \<le> lenY. filled B x y d s2 i' j'"
      using st(3) I by simp
    moreover have "\<forall>j' < Suc k. filled B x y d s2 i j'"
      using st(2) st(3) I by (auto simp: less_Suc_eq)
    ultimately show ?thesis using st(1) by simp
  qed
  have step: "\<forall>k s1 s2. k < lenY + 1 \<longrightarrow> ?I k s1 \<longrightarrow> cell B x y d i k s1 = Some s2 \<longrightarrow> ?I (Suc k) s2"
    using step1 by blast
  have "?I (lenY + 1) ft'"
    by (rule for_each_upt_inv [where body = "\<lambda>j. cell B x y d i j" and n = "lenY + 1" and s = ft
        and s' = ft' and I = ?I, OF assms(1) init step])
  then have a: "dims ft' lenX lenY" and b: "\<forall>i' < i. \<forall>j' \<le> lenY. filled B x y d ft' i' j'"
    and c: "\<forall>j' < lenY + 1. filled B x y d ft' i j'"
    by blast+
  have "filled B x y d ft' i' j'" if "i' < Suc i" "j' \<le> lenY" for i' j'
  proof (cases "i' = i")
    case True
    then show ?thesis using c that by simp
  next
    case False
    then show ?thesis using b that by simp
  qed
  then show ?thesis using a by blast
qed

lemma weights_filled:
  assumes "weights B x y d lenX lenY = Some ft"
  shows "dims ft lenX lenY \<and> (\<forall>i \<le> lenX. \<forall>j \<le> lenY. filled B x y d ft i j)"
proof -
  let ?I = "\<lambda>i ft. dims ft lenX lenY \<and> (\<forall>i' < i. \<forall>j' \<le> lenY. filled B x y d ft i' j')"
  let ?s0 = "(replicate (lenX + 1) (replicate (lenY + 1) (0::int)),
        replicate (lenX + 1) (replicate (lenY + 1) Unset))"
  have init: "?I 0 ?s0"
    by (auto simp: dims_def nth_replicate simp del: replicate.simps replicate_Suc)
  have step1: "?I (Suc k) s2"
    if "k < lenX + 1" and "?I k s1"
      and "for_each (\<lambda>j. cell B x y d k j) [0 ..< lenY + 1] s1 = Some s2" for k s1 s2
    using that row_filled [of B x y d k lenY s1 s2 lenX] by simp
  have step: "\<forall>k s1 s2. k < lenX + 1 \<longrightarrow> ?I k s1 \<longrightarrow>
      for_each (\<lambda>j. cell B x y d k j) [0 ..< lenY + 1] s1 = Some s2 \<longrightarrow> ?I (Suc k) s2"
    using step1 by blast
  have "?I (lenX + 1) ft"
    by (rule for_each_upt_inv [where body = "\<lambda>i. for_each (\<lambda>j. cell B x y d i j) [0 ..< lenY + 1]"
        and n = "lenX + 1" and s = ?s0 and s' = ft and I = ?I, OF assms [unfolded weights_def] init step])
  then show ?thesis by (auto simp: less_Suc_eq_le)
qed

lemma weights_total:
  assumes "\<forall>i < lenX. \<forall>j < lenY. scoreColumns B x y i j 8 \<noteq> None"
  shows "\<exists>ft. weights B x y d lenX lenY = Some ft"
proof -
  have cell: "\<exists>s2. cell B x y d i j s1 = Some s2" if "i < lenX + 1" "j < lenY + 1" for i j s1
  proof (cases "i = 0 \<or> j = 0")
    case True
    then show ?thesis by (auto simp: cell_def split: prod.splits)
  next
    case False
    then have "i - 1 < lenX" "j - 1 < lenY"
      using that by auto
    then have "scoreColumns B x y (i - 1) (j - 1) 8 \<noteq> None"
      using assms by blast
    then show ?thesis
      using False by (auto simp: cell_def Let_def split: prod.splits)
  qed
  have row: "\<exists>s2. for_each (\<lambda>j. cell B x y d i j) [0 ..< lenY + 1] s1 = Some s2 \<and> True"
    if "i < lenX + 1" for i s1
    using for_each_upt_total [where I = "\<lambda>_ _. True" and body = "\<lambda>j. cell B x y d i j"
        and n = "lenY + 1" and s = s1] cell that
    by simp
  have "\<exists>s'. for_each (\<lambda>i. for_each (\<lambda>j. cell B x y d i j) [0 ..< lenY + 1]) [0 ..< lenX + 1]
       (replicate (lenX + 1) (replicate (lenY + 1) 0),
        replicate (lenX + 1) (replicate (lenY + 1) Unset)) = Some s' \<and> True"
    using for_each_upt_total [where I = "\<lambda>_ _. True"
        and body = "\<lambda>i. for_each (\<lambda>j. cell B x y d i j) [0 ..< lenY + 1]" and n = "lenX + 1"] row
    by simp
  then show ?thesis by (simp add: weights_def)
qed

section \<open>Rows with gaps inserted\<close>

lemma gapped_Nil [simp]: "gapped [] []"
  by simp

lemma gapped_snoc: "gapped r r' \<Longrightarrow> gapped (r @ [c]) (r' @ [c])"
  by (induction r r' rule: gapped.induct) auto

lemma gapped_snoc_gap: "gapped r r' \<Longrightarrow> gapped r (r' @ [gap])"
  by (induction r r' rule: gapped.induct) auto


lemma gapped_length: "gapped r r' \<Longrightarrow> length r \<le> length r'"
  by (induction r r' rule: gapped.induct) auto

lemma column_Some:
  assumes "0 \<le> c" and "\<forall>r \<in> set x. nat c < length r"
  shows "column x c = Some (map (\<lambda>r. r ! nat c) x)"
proof -
  have "list_all2 (\<lambda>r a. py_item r c = Some a) x (map (\<lambda>r. r ! nat c) x)"
    using assms by (simp add: list_all2_conv_all_nth py_item_nat item_def)
  then show ?thesis
    unfolding column_def by (rule map_opt_SomeI)
qed

lemma prepend_nth:
  "length col = length p \<Longrightarrow> k < length p \<Longrightarrow> prepend col p ! k = col ! k # p ! k"
  by (simp add: prepend_def)

lemma prepend_length [simp]: "length col = length p \<Longrightarrow> length (prepend col p) = length p"
  by (simp add: prepend_def)

lemma grown_start: "length xp = length x \<Longrightarrow> grown x 0 xp xp 0"
  by (simp add: grown_def)

lemma grown_col:
  assumes "grown x i (prepend (map (\<lambda>r. r ! i) x) xp) xp' n"
    and "\<forall>r \<in> set x. i < length r" and "length xp = length x"
  shows "grown x (Suc i) xp xp' (Suc n)"
proof -
  have "\<exists>u. xp' ! k = u @ xp ! k \<and> length u = Suc n \<and> gapped (take (Suc i) (x ! k)) u"
    if k: "k < length x" for k
  proof -
    obtain u where u: "xp' ! k = u @ prepend (map (\<lambda>r. r ! i) x) xp ! k" "length u = n"
      "gapped (take i (x ! k)) u"
      using assms(1) k by (auto simp: grown_def)
    have "prepend (map (\<lambda>r. r ! i) x) xp ! k = x ! k ! i # xp ! k"
      using k assms(3) by (simp add: prepend_nth)
    then have 1: "xp' ! k = (u @ [x ! k ! i]) @ xp ! k"
      using u(1) by simp
    have "i < length (x ! k)" using assms(2) k by simp
    then have "take (Suc i) (x ! k) = take i (x ! k) @ [x ! k ! i]"
      by (simp add: take_Suc_conv_app_nth)
    then have "gapped (take (Suc i) (x ! k)) (u @ [x ! k ! i])"
      using u(3) gapped_snoc by simp
    then show ?thesis using 1 u(2) by (metis length_append_singleton)
  qed
  then show ?thesis using assms(1) by (simp add: grown_def)
qed

lemma grown_gap:
  assumes "grown y j (map ((#) gap) yp) yp' n" and "length yp = length y"
  shows "grown y j yp yp' (Suc n)"
proof -
  have "\<exists>u. yp' ! k = u @ yp ! k \<and> length u = Suc n \<and> gapped (take j (y ! k)) u"
    if k: "k < length y" for k
  proof -
    obtain u where u: "yp' ! k = u @ map ((#) gap) yp ! k" "length u = n"
      "gapped (take j (y ! k)) u"
      using assms(1) k by (auto simp: grown_def)
    have 1: "yp' ! k = (u @ [gap]) @ yp ! k"
      using u(1) k assms(2) by simp
    have "gapped (take j (y ! k)) (u @ [gap])"
      using u(3) by (rule gapped_snoc_gap)
    then show ?thesis using 1 u(2) by (metis length_append_singleton)
  qed
  then show ?thesis using assms(1) by (simp add: grown_def)
qed

lemma grown_col_symbol:
  assumes "grown x i (prepend (map (\<lambda>r. r ! i) x) xp) xp' n"
    and "length xp = length x" and "has_symbol x i"
  shows "has_symbol xp' n"
proof -
  obtain k where k: "k < length x" "i < length (x ! k)" "x ! k ! i \<noteq> gap"
    using assms(3) by (auto simp: has_symbol_def in_set_conv_nth)
  obtain u where u: "xp' ! k = u @ prepend (map (\<lambda>r. r ! i) x) xp ! k" "length u = n"
    using assms(1) k(1) by (auto simp: grown_def)
  have "prepend (map (\<lambda>r. r ! i) x) xp ! k = x ! k ! i # xp ! k"
    using k(1) assms(2) by (simp add: prepend_nth)
  then have "xp' ! k = u @ x ! k ! i # xp ! k" using u(1) by simp
  then have "n < length (xp' ! k)" "xp' ! k ! n = x ! k ! i"
    using u(2) by (simp_all add: nth_append)
  moreover have "xp' ! k \<in> set xp'"
    using assms(1) k(1) by (simp add: grown_def)
  ultimately show ?thesis using k(3) by (auto simp: has_symbol_def)
qed

section \<open>The traceback\<close>

lemma py_item_row:
  "0 \<le> i \<Longrightarrow> nat i < length xs \<Longrightarrow> py_item xs i = Some (xs ! nat i)"
  by (simp add: py_item_nat item_def)

lemma traceback_grown:
  assumes b: "borders t lenX lenY"
    and rx: "\<forall>r \<in> set x. length r = lenX" and ry: "\<forall>r \<in> set y. length r = lenY"
    and ij: "0 \<le> i" "i \<le> int lenX" "0 \<le> j" "j \<le> int lenY"
    and len: "length xp = length x" "length yp = length y"
  shows "\<exists>xp' yp' n. traceback t x y i j xp yp = Some (xp', yp') \<and>
      grown x (nat i) xp xp' n \<and> grown y (nat j) yp yp' n \<and>
      ((\<forall>c < nat i. has_symbol x c) \<and> (\<forall>c < nat j. has_symbol y c) \<longrightarrow>
       (\<forall>c < n. has_symbol xp' c \<or> has_symbol yp' c))"
  using ij len
proof (induction "nat (i + j)" arbitrary: i j xp yp rule: less_induct)
  case less
  note ij = less.prems(1-4) and len = less.prems(5,6)
  show ?case
  proof (cases "i + j > 0")
    case False
    then have z: "i = 0" "j = 0" using ij by simp_all
    have "traceback t x y i j xp yp = Some (xp, yp)"
      using False by (subst traceback.simps) simp
    then show ?thesis
      using z len grown_start by fastforce
  next
    case True
    define m where "m = t ! nat i ! nat j"
    have ti: "py_item t i = Some (t ! nat i)"
      using b ij by (intro py_item_row) (simp_all add: borders_def)
    have tj: "py_item (t ! nat i) j = Some m"
      unfolding m_def using b ij by (intro py_item_row) (simp_all add: borders_def)
    have colx: "column x (i - 1) = Some (map (\<lambda>r. r ! nat (i - 1)) x)" if "1 \<le> i"
      using that rx ij by (intro column_Some) auto
    have coly: "column y (j - 1) = Some (map (\<lambda>r. r ! nat (j - 1)) y)" if "1 \<le> j"
      using that ry ij by (intro column_Some) auto
    have longx: "\<forall>r \<in> set x. nat (i - 1) < length r" if "1 \<le> i"
      using that rx ij by auto
    have longy: "\<forall>r \<in> set y. nat (j - 1) < length r" if "1 \<le> j"
      using that ry ij by auto
    let ?cx = "map (\<lambda>r. r ! nat (i - 1)) x"
    let ?cy = "map (\<lambda>r. r ! nat (j - 1)) y"
    show ?thesis
    proof (cases "m = D")
      case True
      have i1: "1 \<le> i"
      proof (rule ccontr)
        assume "\<not> 1 \<le> i"
        then have "i = 0" using ij by simp
        then have "1 \<le> nat j" "nat j \<le> lenY" using \<open>0 < i + j\<close> ij by simp_all
        then have "t ! 0 ! nat j = L" using b by (simp add: borders_def)
        then show False using True \<open>i = 0\<close> by (simp add: m_def)
      qed
      have j1: "1 \<le> j"
      proof (rule ccontr)
        assume "\<not> 1 \<le> j"
        then have "j = 0" using ij by simp
        then have "1 \<le> nat i" "nat i \<le> lenX" using \<open>0 < i + j\<close> ij by simp_all
        then have "t ! nat i ! 0 = T" using b by (simp add: borders_def)
        then show False using True \<open>j = 0\<close> by (simp add: m_def)
      qed
      have eq: "traceback t x y i j xp yp =
          traceback t x y (i - 1) (j - 1) (prepend ?cx xp) (prepend ?cy yp)"
        using \<open>0 < i + j\<close> ti tj True colx [OF i1] coly [OF j1]
        by (subst traceback.simps) simp
      have lt: "nat (i - 1 + (j - 1)) < nat (i + j)" using i1 j1 by simp
      have "\<exists>xp' yp' n. traceback t x y (i - 1) (j - 1) (prepend ?cx xp) (prepend ?cy yp) = Some (xp', yp') \<and>
          grown x (nat (i - 1)) (prepend ?cx xp) xp' n \<and>
          grown y (nat (j - 1)) (prepend ?cy yp) yp' n \<and>
          ((\<forall>c < nat (i - 1). has_symbol x c) \<and> (\<forall>c < nat (j - 1). has_symbol y c) \<longrightarrow>
         (\<forall>c < n. has_symbol xp' c \<or> has_symbol yp' c))"
        by (rule less.hyps [OF lt]) (use i1 j1 ij len in simp_all)
      then obtain xp' yp' n where IH:
        "traceback t x y (i - 1) (j - 1) (prepend ?cx xp) (prepend ?cy yp) = Some (xp', yp')"
        "grown x (nat (i - 1)) (prepend ?cx xp) xp' n"
        "grown y (nat (j - 1)) (prepend ?cy yp) yp' n"
        "(\<forall>c < nat (i - 1). has_symbol x c) \<and> (\<forall>c < nat (j - 1). has_symbol y c) \<longrightarrow>
         (\<forall>c < n. has_symbol xp' c \<or> has_symbol yp' c)"
        by blast
      have si: "Suc (nat (i - 1)) = nat i" and sj: "Suc (nat (j - 1)) = nat j"
        using i1 j1 by simp_all
      have gx: "grown x (nat i) xp xp' (Suc n)"
        using grown_col [OF IH(2) longx [OF i1] len(1)] si by simp
      have gy: "grown y (nat j) yp yp' (Suc n)"
        using grown_col [OF IH(3) longy [OF j1] len(2)] sj by simp
      have "has_symbol xp' c \<or> has_symbol yp' c"
        if h: "\<forall>c < nat i. has_symbol x c" "\<forall>c < nat j. has_symbol y c" and c: "c < Suc n" for c
      proof (cases "c = n")
        case True
        have "has_symbol x (nat (i - 1))" using h(1) si by (metis lessI)
        then show ?thesis using grown_col_symbol [OF IH(2) len(1)] True by simp
      next
        case False
        then have "c < n" using c by simp
        moreover have "\<forall>c < nat (i - 1). has_symbol x c" "\<forall>c < nat (j - 1). has_symbol y c"
          using h si sj by (metis less_Suc_eq)+
        ultimately show ?thesis using IH(4) by simp
      qed
      then have sym: "(\<forall>c < nat i. has_symbol x c) \<and> (\<forall>c < nat j. has_symbol y c) \<longrightarrow>
            (\<forall>c < Suc n. has_symbol xp' c \<or> has_symbol yp' c)"
          by blast
        have "traceback t x y i j xp yp = Some (xp', yp')" using eq IH(1) by simp
        then show ?thesis using gx gy sym by blast
    next
      case notD: False
      show ?thesis
      proof (cases "m = T")
        case True
        have i1: "1 \<le> i"
        proof (rule ccontr)
          assume "\<not> 1 \<le> i"
          then have "i = 0" using ij by simp
          then have "1 \<le> nat j" "nat j \<le> lenY" using \<open>0 < i + j\<close> ij by simp_all
          then have "t ! 0 ! nat j = L" using b by (simp add: borders_def)
          then show False using True \<open>i = 0\<close> by (simp add: m_def)
        qed
        have eq: "traceback t x y i j xp yp =
            traceback t x y (i - 1) j (prepend ?cx xp) (map ((#) gap) yp)"
          using \<open>0 < i + j\<close> ti tj True colx [OF i1]
          by (subst traceback.simps) simp
        have lt: "nat (i - 1 + j) < nat (i + j)" using i1 ij by simp
        have "\<exists>xp' yp' n. traceback t x y (i - 1) j (prepend ?cx xp) (map ((#) gap) yp) = Some (xp', yp') \<and>
          grown x (nat (i - 1)) (prepend ?cx xp) xp' n \<and>
          grown y (nat j) (map ((#) gap) yp) yp' n \<and>
          ((\<forall>c < nat (i - 1). has_symbol x c) \<and> (\<forall>c < nat j. has_symbol y c) \<longrightarrow>
           (\<forall>c < n. has_symbol xp' c \<or> has_symbol yp' c))"
          by (rule less.hyps [OF lt]) (use i1 ij len in simp_all)
        then obtain xp' yp' n where IH:
          "traceback t x y (i - 1) j (prepend ?cx xp) (map ((#) gap) yp) = Some (xp', yp')"
          "grown x (nat (i - 1)) (prepend ?cx xp) xp' n"
          "grown y (nat j) (map ((#) gap) yp) yp' n"
          "(\<forall>c < nat (i - 1). has_symbol x c) \<and> (\<forall>c < nat j. has_symbol y c) \<longrightarrow>
           (\<forall>c < n. has_symbol xp' c \<or> has_symbol yp' c)"
          by blast
        have si: "Suc (nat (i - 1)) = nat i" using i1 by simp
        have gx: "grown x (nat i) xp xp' (Suc n)"
          using grown_col [OF IH(2) longx [OF i1] len(1)] si by simp
        have gy: "grown y (nat j) yp yp' (Suc n)"
          using grown_gap [OF IH(3) len(2)] .
        have "has_symbol xp' c \<or> has_symbol yp' c"
          if h: "\<forall>c < nat i. has_symbol x c" "\<forall>c < nat j. has_symbol y c" and c: "c < Suc n" for c
        proof (cases "c = n")
          case True
          have "has_symbol x (nat (i - 1))" using h(1) si by (metis lessI)
          then show ?thesis using grown_col_symbol [OF IH(2) len(1)] True by simp
        next
          case False
          then have "c < n" using c by simp
          moreover have "\<forall>c < nat (i - 1). has_symbol x c"
            using h si by (metis less_Suc_eq)
          ultimately show ?thesis using IH(4) h(2) by simp
        qed
        then have sym: "(\<forall>c < nat i. has_symbol x c) \<and> (\<forall>c < nat j. has_symbol y c) \<longrightarrow>
            (\<forall>c < Suc n. has_symbol xp' c \<or> has_symbol yp' c)"
          by blast
        have "traceback t x y i j xp yp = Some (xp', yp')" using eq IH(1) by simp
        then show ?thesis using gx gy sym by blast
      next
        case notT: False
        have j1: "1 \<le> j"
        proof (rule ccontr)
          assume "\<not> 1 \<le> j"
          then have "j = 0" using ij by simp
          then have "1 \<le> nat i" "nat i \<le> lenX" using \<open>0 < i + j\<close> ij by simp_all
          then have "t ! nat i ! 0 = T" using b by (simp add: borders_def)
          then show False using notT \<open>j = 0\<close> by (simp add: m_def)
        qed
        have eq: "traceback t x y i j xp yp =
            traceback t x y i (j - 1) (map ((#) gap) xp) (prepend ?cy yp)"
          using \<open>0 < i + j\<close> ti tj notD notT coly [OF j1]
          by (subst traceback.simps) simp
        have lt: "nat (i + (j - 1)) < nat (i + j)" using j1 ij by simp
        have "\<exists>xp' yp' n. traceback t x y i (j - 1) (map ((#) gap) xp) (prepend ?cy yp) = Some (xp', yp') \<and>
          grown x (nat i) (map ((#) gap) xp) xp' n \<and>
          grown y (nat (j - 1)) (prepend ?cy yp) yp' n \<and>
          ((\<forall>c < nat i. has_symbol x c) \<and> (\<forall>c < nat (j - 1). has_symbol y c) \<longrightarrow>
           (\<forall>c < n. has_symbol xp' c \<or> has_symbol yp' c))"
          by (rule less.hyps [OF lt]) (use j1 ij len in simp_all)
        then obtain xp' yp' n where IH:
          "traceback t x y i (j - 1) (map ((#) gap) xp) (prepend ?cy yp) = Some (xp', yp')"
          "grown x (nat i) (map ((#) gap) xp) xp' n"
          "grown y (nat (j - 1)) (prepend ?cy yp) yp' n"
          "(\<forall>c < nat i. has_symbol x c) \<and> (\<forall>c < nat (j - 1). has_symbol y c) \<longrightarrow>
           (\<forall>c < n. has_symbol xp' c \<or> has_symbol yp' c)"
          by blast
        have sj: "Suc (nat (j - 1)) = nat j" using j1 by simp
        have gx: "grown x (nat i) xp xp' (Suc n)"
          using grown_gap [OF IH(2) len(1)] .
        have gy: "grown y (nat j) yp yp' (Suc n)"
          using grown_col [OF IH(3) longy [OF j1] len(2)] sj by simp
        have "has_symbol xp' c \<or> has_symbol yp' c"
          if h: "\<forall>c < nat i. has_symbol x c" "\<forall>c < nat j. has_symbol y c" and c: "c < Suc n" for c
        proof (cases "c = n")
          case True
          have "has_symbol y (nat (j - 1))" using h(2) sj by (metis lessI)
          then show ?thesis using grown_col_symbol [OF IH(3) len(2)] True by simp
        next
          case False
          then have "c < n" using c by simp
          moreover have "\<forall>c < nat (j - 1). has_symbol y c"
            using h sj by (metis less_Suc_eq)
          ultimately show ?thesis using IH(4) h(1) by simp
        qed
        then have sym: "(\<forall>c < nat i. has_symbol x c) \<and> (\<forall>c < nat j. has_symbol y c) \<longrightarrow>
            (\<forall>c < Suc n. has_symbol xp' c \<or> has_symbol yp' c)"
          by blast
        have "traceback t x y i j xp yp = Some (xp', yp')" using eq IH(1) by simp
        then show ?thesis using gx gy sym by blast
      qed
    qed
  qed
qed

section \<open>Column scores and the aligner's result\<close>

lemma for_each_add:
  fixes s :: int
  assumes "\<forall>a \<in> set as. \<forall>s. body a s = Some (s + w a)"
  shows "for_each body as s = Some (s + sum_list (map w as))"
  using assms by (induction as arbitrary: s) (simp_all add: add.assoc)

lemma pairTerm_defined:
  "(a \<noteq> gap \<longrightarrow> b \<noteq> gap \<longrightarrow> B a b \<noteq> None) \<Longrightarrow>
   pairTerm B gp a b = Some (the (pairTerm B gp a b))"
  by (auto simp: pairTerm_def)


lemma scoreColumns_value:
  assumes "\<forall>r \<in> set x. i < length r" and "\<forall>r \<in> set y. j < length r" and "covers B x y"
  shows "scoreColumns B x y i j g =
    Some (\<Sum>xk\<leftarrow>x. \<Sum>yl\<leftarrow>y. the (pairTerm B (flipped g) (xk ! i) (yl ! j)))"
proof -
  let ?w = "\<lambda>xk yl. the (pairTerm B (flipped g) (xk ! i) (yl ! j))"
  let ?inner = "\<lambda>xk yl (total::int). item xk i \<bind> (\<lambda>a. item yl j \<bind> (\<lambda>b.
      pairTerm B (flipped g) a b \<bind> (\<lambda>s. Some (total + s))))"
  have inner: "?inner xk yl s = Some (s + ?w xk yl)" if "xk \<in> set x" "yl \<in> set y" for xk yl s
  proof -
    have "xk ! i \<in> set xk" "yl ! j \<in> set yl" using that assms(1,2) by simp_all
    then have "xk ! i \<noteq> gap \<longrightarrow> yl ! j \<noteq> gap \<longrightarrow> B (xk ! i) (yl ! j) \<noteq> None"
      using assms(3) that unfolding covers_def by blast
    then have "pairTerm B (flipped g) (xk ! i) (yl ! j) = Some (?w xk yl)"
      by (rule pairTerm_defined)
    then obtain v where v: "pairTerm B (flipped g) (xk ! i) (yl ! j) = Some v" "?w xk yl = v"
      by simp
    have "item xk i = Some (xk ! i)" "item yl j = Some (yl ! j)"
      using that assms(1,2) by (simp_all add: item_def)
    then show ?thesis using v by simp
  qed
  have row: "for_each (?inner xk) y s = Some (s + (\<Sum>yl\<leftarrow>y. ?w xk yl))" if "xk \<in> set x" for xk s
    by (rule for_each_add) (use inner that in blast)
  have "for_each (\<lambda>xk. for_each (?inner xk) y) x 0 = Some (0 + (\<Sum>xk\<leftarrow>x. \<Sum>yl\<leftarrow>y. ?w xk yl))"
    by (rule for_each_add) (use row in blast)
  then show ?thesis by (simp add: scoreColumns_def)
qed




lemma weights_borders:
  assumes "weights B x y d lenX lenY = Some (f, t)"
  shows "borders t lenX lenY"
proof -
  have d: "dims (f, t) lenX lenY" and fl: "\<forall>i \<le> lenX. \<forall>j \<le> lenY. filled B x y d (f, t) i j"
    using weights_filled [OF assms] by simp_all
  have "t ! 0 ! j = L" if "1 \<le> j \<and> j \<le> lenY" for j
    using fl that by (auto simp: filled_def)
  moreover have "t ! i ! 0 = T" if "1 \<le> i \<and> i \<le> lenX" for i
  proof -
    have "filled B x y d (f, t) i 0" using fl that by simp
    then show ?thesis using that by (simp add: filled_def)
  qed
  ultimately show ?thesis using d by (simp add: borders_def dims_def)
qed

lemma rectangular_rows: "rectangular p \<Longrightarrow> \<forall>r \<in> set p. length r = length (hd p)"
  by (simp add: rectangular_def)

lemma alignProfiles_unfold:
  assumes "x \<noteq> []" "y \<noteq> []"
  shows "alignProfiles B x y d =
    (case weights B x y d (length (hd x)) (length (hd y)) of None \<Rightarrow> None
     | Some (f, t) \<Rightarrow>
        (case traceback t x y (int (length (hd x))) (int (length (hd y)))
                (replicate (length x) []) (replicate (length y) []) of None \<Rightarrow> None
         | Some (xp, yp) \<Rightarrow> Some (f ! length (hd x) ! length (hd y), xp, yp)))"
  using assms
  by (simp add: alignProfiles_def item_def hd_conv_nth Let_def split: option.splits prod.splits)


lemma grown_final:
  assumes "grown x lenX (replicate (length x) []) xp n" and "\<forall>r \<in> set x. length r = lenX"
  shows "list_all2 gapped x xp" and "\<forall>r \<in> set xp. length r = n"
proof -
  have len: "length xp = length x" using assms(1) by (simp add: grown_def)
  have row: "gapped (x ! k) (xp ! k) \<and> length (xp ! k) = n" if "k < length x" for k
  proof -
    have "\<exists>u. xp ! k = u @ replicate (length x) [] ! k \<and> length u = n \<and>
        gapped (take lenX (x ! k)) u"
      using assms(1) that unfolding grown_def by blast
    then obtain u where u: "xp ! k = u @ replicate (length x) [] ! k" "length u = n"
        "gapped (take lenX (x ! k)) u"
      by blast
    have "xp ! k = u" using u(1) that by simp
    moreover have "take lenX (x ! k) = x ! k" using assms(2) that by simp
    ultimately show ?thesis using u(2,3) by simp
  qed
  show "list_all2 gapped x xp"
    using len row by (simp add: list_all2_conv_all_nth)
  show "\<forall>r \<in> set xp. length r = n"
    using len row by (auto simp: in_set_conv_nth)
qed

lemma alignProfiles_result:
  assumes "x \<noteq> []" "y \<noteq> []" "rectangular x" "rectangular y"
    and "weights B x y d (length (hd x)) (length (hd y)) = Some (f, t)"
  shows "\<exists>xp yp n. alignProfiles B x y d = Some (f ! length (hd x) ! length (hd y), xp, yp) \<and>
    list_all2 gapped x xp \<and> list_all2 gapped y yp \<and>
    (\<forall>r \<in> set xp \<union> set yp. length r = n) \<and>
    ((\<forall>c < length (hd x). has_symbol x c) \<and> (\<forall>c < length (hd y). has_symbol y c) \<longrightarrow>
     (\<forall>c < n. has_symbol xp c \<or> has_symbol yp c))"
proof -
  let ?lx = "length (hd x)" and ?ly = "length (hd y)"
  have b: "borders t ?lx ?ly" using assms(5) by (rule weights_borders)
  have rx: "\<forall>r \<in> set x. length r = ?lx" and ry: "\<forall>r \<in> set y. length r = ?ly"
    using assms(3,4) by (simp_all add: rectangular_def)
  have "\<exists>xp yp n.
    traceback t x y (int ?lx) (int ?ly) (replicate (length x) []) (replicate (length y) []) = Some (xp, yp) \<and>
    grown x (nat (int ?lx)) (replicate (length x) []) xp n \<and>
    grown y (nat (int ?ly)) (replicate (length y) []) yp n \<and>
    ((\<forall>c < nat (int ?lx). has_symbol x c) \<and> (\<forall>c < nat (int ?ly). has_symbol y c) \<longrightarrow>
     (\<forall>c < n. has_symbol xp c \<or> has_symbol yp c))"
    by (rule traceback_grown [OF b rx ry]) simp_all
  then obtain xp yp n where tb:
    "traceback t x y (int ?lx) (int ?ly) (replicate (length x) []) (replicate (length y) []) = Some (xp, yp)"
    "grown x (nat (int ?lx)) (replicate (length x) []) xp n"
    "grown y (nat (int ?ly)) (replicate (length y) []) yp n"
    "(\<forall>c < nat (int ?lx). has_symbol x c) \<and> (\<forall>c < nat (int ?ly). has_symbol y c) \<longrightarrow>
     (\<forall>c < n. has_symbol xp c \<or> has_symbol yp c)"
    by blast
  have "alignProfiles B x y d = Some (f ! ?lx ! ?ly, xp, yp)"
    using assms(1,2,5) tb(1) by (simp add: alignProfiles_unfold)
  moreover have "list_all2 gapped x xp" "\<forall>r \<in> set xp. length r = n"
    using grown_final [OF _ rx] tb(2) by simp_all
  moreover have "list_all2 gapped y yp" "\<forall>r \<in> set yp. length r = n"
    using grown_final [OF _ ry] tb(3) by simp_all
  ultimately show ?thesis using tb(4) by auto
qed

lemma weights_defined:
  assumes "x \<noteq> []" "y \<noteq> []" "rectangular x" "rectangular y" "covers B x y"
  shows "\<exists>f t. weights B x y d (length (hd x)) (length (hd y)) = Some (f, t)"
proof -
  have "scoreColumns B x y i j 8 \<noteq> None" if "i < length (hd x)" "j < length (hd y)" for i j
    using scoreColumns_value [of x i y j B 8] assms(3-5) that by (simp add: rectangular_def)
  then show ?thesis
    using weights_total [of "length (hd x)" "length (hd y)" B x y d] by auto
qed

section \<open>Properties of the profile aligner\<close>



lemma alignProfiles_defined:
  assumes "x \<noteq> []" "y \<noteq> []" "rectangular x" "rectangular y" "covers B x y"
  shows "\<exists>f t xp yp n. weights B x y d (length (hd x)) (length (hd y)) = Some (f, t) \<and>
    alignProfiles B x y d = Some (f ! length (hd x) ! length (hd y), xp, yp) \<and>
    list_all2 gapped x xp \<and> list_all2 gapped y yp \<and>
    (\<forall>r \<in> set xp \<union> set yp. length r = n) \<and>
    ((\<forall>c < length (hd x). has_symbol x c) \<and> (\<forall>c < length (hd y). has_symbol y c) \<longrightarrow>
     (\<forall>c < n. has_symbol xp c \<or> has_symbol yp c))"
proof -
  obtain f t where w: "weights B x y d (length (hd x)) (length (hd y)) = Some (f, t)"
    using weights_defined [OF assms] by blast
  show ?thesis
    using alignProfiles_result [OF assms(1-4) w] w by blast
qed

lemma has_symbol_append: "has_symbol (p @ q) c \<longleftrightarrow> has_symbol p c \<or> has_symbol q c"
  by (auto simp: has_symbol_def)

text \<open>
  Claim C1: for every gap penalty \<open>d\<close> the entry \<open>f[i][j]\<close> is the maximum of
  \<open>f[i-1][j-1]\<close> plus the cross score of the two columns, \<open>f[i-1][j] - d * len(y)\<close> and
  \<open>f[i][j-1] - d * len(x)\<close>, and the score returned is \<open>f[lenX][lenY]\<close>. The top and the
  left branch use \<open>d\<close>, but the loop calls \<open>scoreColumns(x, y, i-1, j-1)\<close> without it, so a
  gap met in the cross score always costs the default 8. For \<open>d = 3\<close> and the profiles
  \<open>AW, A-\<close> and \<open>W\<close>: \<open>f[1][0] = -3\<close>, \<open>f[1][1] = -6\<close>, \<open>f[2][0] = -6\<close>; the cross score of
  column 1 of \<open>x\<close> against column 0 of \<open>y\<close> is 12 under the penalty 3 and 7 under the
  penalty 8. The recurrence of the claim gives \<open>f[2][1] = max(-3 + 12, -6 - 3, -6 - 6) = 9\<close>;
  the code stores \<open>-3 + 7 = 4\<close> there and returns 4 as the score.
\<close>

theorem alignProfiles_cross_score_default_penalty:
  "weights blosum50_AEGHPW [''AW'', ''A-''] [''W''] 3 2 1 =
     Some ([[0, - 6], [- 3, - 6], [- 6, 4]], [[L, L], [T, D], [T, D]]) \<and>
   alignProfiles blosum50_AEGHPW [''AW'', ''A-''] [''W''] 3 = Some (4, [''AW'', ''A-''], [''-W'']) \<and>
   scoreColumns blosum50_AEGHPW [''AW'', ''A-''] [''W''] 1 0 3 = Some 12 \<and>
   scoreColumns blosum50_AEGHPW [''AW'', ''A-''] [''W''] 1 0 8 = Some 7 \<and>
   max (- 3 + 12) (max (- 6 - 3 * 1) (- 6 - 3 * 2)) = (9 :: int)"
  by code_simp

text \<open>
  Claim C5. For non-empty rectangular profiles \<open>x\<close> and \<open>y\<close> whose symbol pairs all have an
  entry in the table, and every gap penalty, \<open>alignProfiles\<close> returns \<open>(score, x', y')\<close>
  where all rows of \<open>x'\<close> and of \<open>y'\<close> have one common length, and each row of \<open>x'\<close> (of \<open>y'\<close>)
  is the row of \<open>x\<close> (of \<open>y\<close>) at the same position with gap symbols inserted.
\<close>

theorem alignProfiles_rows_gapped:
  assumes "x \<noteq> []" and "y \<noteq> []" and "rectangular x" and "rectangular y" and "covers B x y"
  shows "\<exists>s xp yp n. alignProfiles B x y d = Some (s, xp, yp) \<and>
    list_all2 gapped x xp \<and> list_all2 gapped y yp \<and>
    (\<forall>r \<in> set xp \<union> set yp. length r = n)"
  using alignProfiles_defined [OF assms, of d] by blast

theorem alignProfiles_rows_gapped_witness:
  "[''AW'', ''A-''] \<noteq> [] \<and> [''W''] \<noteq> [] \<and> rectangular [''AW'', ''A-''] \<and> rectangular [''W''] \<and>
   covers blosum50_AEGHPW [''AW'', ''A-''] [''W''] \<and>
   (\<exists>s xp yp n. alignProfiles blosum50_AEGHPW [''AW'', ''A-''] [''W''] 8 = Some (s, xp, yp) \<and>
    list_all2 gapped [''AW'', ''A-''] xp \<and> list_all2 gapped [''W''] yp \<and>
    (\<forall>r \<in> set xp \<union> set yp. length r = n))"
proof -
  have r: "rectangular [''AW'', ''A-'']" "rectangular [''W'']"
    by (simp_all add: rectangular_def)
  have c: "covers blosum50_AEGHPW [''AW'', ''A-''] [''W'']"
    by code_simp
  show ?thesis
    using alignProfiles_rows_gapped [OF _ _ r c, of 8] r c by simp
qed

text \<open>
  Claim C6, as stated: for every pair of profiles the merged output of \<open>alignProfiles\<close> has a
  non-gap symbol in every column. It fails on the one-row profiles \<open>A-\<close> and \<open>A\<close>: the
  second column of \<open>x\<close> holds only a gap, the traceback takes the top branch there and
  inserts a gap into \<open>y\<close>, so column 1 of the merged output holds gaps only.
\<close>

theorem alignProfiles_all_gap_column:
  "alignProfiles blosum50_AEGHPW [''A-''] [''A''] 8 = Some (- 3, [''A-''], [''A-'']) \<and>
   \<not> has_symbol ([''A-''] @ [''A-'']) 1"
  by code_simp

text \<open>
  Claim C6, amended: when every column of \<open>x\<close> and every column of \<open>y\<close> holds a non-gap
  symbol (\<open>x\<close> and \<open>y\<close> non-empty, rectangular, their symbol pairs in the table), every
  column of the merged output \<open>x' @ y'\<close> holds a non-gap symbol.
\<close>

theorem alignProfiles_no_gap_column:
  assumes "x \<noteq> []" and "y \<noteq> []" and "rectangular x" and "rectangular y" and "covers B x y"
    and "\<forall>c < length (hd x). has_symbol x c" and "\<forall>c < length (hd y). has_symbol y c"
  shows "\<exists>s xp yp. alignProfiles B x y d = Some (s, xp, yp) \<and>
    (\<forall>r \<in> set (xp @ yp). length r = length (hd xp)) \<and>
    (\<forall>c < length (hd xp). has_symbol (xp @ yp) c)"
proof -
  obtain s xp yp n where a: "alignProfiles B x y d = Some (s, xp, yp)"
    and g: "list_all2 gapped x xp"
    and n: "\<forall>r \<in> set xp \<union> set yp. length r = n"
    and h: "(\<forall>c < length (hd x). has_symbol x c) \<and> (\<forall>c < length (hd y). has_symbol y c) \<longrightarrow>
     (\<forall>c < n. has_symbol xp c \<or> has_symbol yp c)"
    using alignProfiles_defined [OF assms(1-5), of d] by blast
  have "xp \<noteq> []" using g assms(1) by auto
  then have "hd xp \<in> set xp" by simp
  then have "length (hd xp) = n" using n by blast
  then show ?thesis using a n h assms(6,7) by (auto simp: has_symbol_append)
qed

theorem alignProfiles_no_gap_column_witness:
  "[''AW'', ''A-''] \<noteq> [] \<and> [''W''] \<noteq> [] \<and> rectangular [''AW'', ''A-''] \<and> rectangular [''W''] \<and>
   covers blosum50_AEGHPW [''AW'', ''A-''] [''W''] \<and>
   has_symbol [''AW'', ''A-''] 0 \<and> has_symbol [''AW'', ''A-''] 1 \<and> has_symbol [''W''] 0 \<and>
   (\<exists>s xp yp. alignProfiles blosum50_AEGHPW [''AW'', ''A-''] [''W''] 8 = Some (s, xp, yp) \<and>
    (\<forall>r \<in> set (xp @ yp). length r = length (hd xp)) \<and>
    (\<forall>c < length (hd xp). has_symbol (xp @ yp) c))"
proof -
  have r: "rectangular [''AW'', ''A-'']" "rectangular [''W'']"
    by (simp_all add: rectangular_def)
  have c: "covers blosum50_AEGHPW [''AW'', ''A-''] [''W'']"
    by code_simp
  have hx: "\<forall>c < length (hd [''AW'', ''A-'']). has_symbol [''AW'', ''A-''] c"
    by (simp add: has_symbol_def gap_def less_Suc_eq)
  have hy: "\<forall>c < length (hd [''W'']). has_symbol [''W''] c"
    by (simp add: has_symbol_def gap_def)
  have h: "has_symbol [''AW'', ''A-''] 0" "has_symbol [''AW'', ''A-''] 1" "has_symbol [''W''] 0"
    by (simp_all add: has_symbol_def gap_def)
  show ?thesis
    using alignProfiles_no_gap_column [OF _ _ r c hx hy, of 8] r c h by simp
qed




section \<open>Rejected candidates\<close>

lemma exp_minus_8: "exp (- 8 :: real) < 1 / 2"
proof -
  have "1 + 8 \<le> exp (8 :: real)" by (rule exp_ge_add_one_self)
  then have "inverse (exp (8 :: real)) \<le> inverse 9"
    by (intro le_imp_inverse_le) simp_all
  then show ?thesis by (simp add: exp_minus)
qed

lemma scoreAlignment_snapshot:
  "scoreAlignment blosum50_AEGHPW [''AW'', ''A-'', ''A-'', ''W-''] 8 = Some (- 18)"
  by code_simp

lemma candidate_snapshot:
  "candidate blosum50_AEGHPW fourth_index (Suc 0) 8 [''AW'', ''A-'', ''A-'', ''W-''] 0 =
   Some ([''AW'', ''A-'', ''A-'', ''-W''], 1)"
  by code_simp

lemma scoreAlignment_candidate:
  "scoreAlignment blosum50_AEGHPW [''AW'', ''A-'', ''A-'', ''-W''] 8 = Some (- 26)"
  by code_simp

lemma acceptance_rejects: "acceptance (one_half 0) (- 26) (- 18) 1 = Some False"
  using exp_minus_8 by (simp add: acceptance_def one_half_def)

lemma cycle_snapshot:
  "cycle blosum50_AEGHPW fourth_index one_half (Suc 0) 8 (1 / 2)
     \<lparr>alignment = [''AW'', ''A-'', ''A-'', ''W-''], counter = 0, temp = 1, ki = 0, ku = 0\<rparr> =
   Some \<lparr>alignment = [''AW'', ''A-'', ''A-'', ''-W''], counter = 0, temp = 1 / 2, ki = 1, ku = 1\<rparr>"
  using acceptance_rejects
  by (simp add: cycle_def scoreAlignment_snapshot candidate_snapshot scoreAlignment_candidate)

text \<open>
  Claim C3: a rejected candidate is discarded and the pre-cycle snapshot stays the current
  alignment. In the code the snapshot \<open>prevProfile\<close> is only written. On the alignment
  \<open>AW, A-, A-, W-\<close> with \<open>t = 2\<close>, \<open>m = 0.5\<close>, the row drawn is the last one and the uniform
  draw is one half: the loop runs one cycle at temperature 1, the candidate
  \<open>AW, A-, A-, -W\<close> scores \<open>-26\<close> against \<open>-18\<close>, the draw exceeds \<open>exp (-8)\<close>, so the
  candidate is rejected; yet it is the alignment of the state after the cycle and the
  alignment that \<open>iterate\<close> returns.
\<close>

theorem rejected_candidate_is_returned:
  "start [''AW'', ''A-'', ''A-'', ''W-''] 2 (1 / 2) =
     Some (1, \<lparr>alignment = [''AW'', ''A-'', ''A-'', ''W-''], counter = 0, temp = 1, ki = 0, ku = 0\<rparr>) \<and>
   scoreAlignment blosum50_AEGHPW [''AW'', ''A-'', ''A-'', ''W-''] 8 = Some (- 18) \<and>
   candidate blosum50_AEGHPW fourth_index 1 8 [''AW'', ''A-'', ''A-'', ''W-''] 0 =
     Some ([''AW'', ''A-'', ''A-'', ''-W''], 1) \<and>
   scoreAlignment blosum50_AEGHPW [''AW'', ''A-'', ''A-'', ''-W''] 8 = Some (- 26) \<and>
   acceptance (one_half 0) (- 26) (- 18) 1 = Some False \<and>
   map_option alignment
     (cycle blosum50_AEGHPW fourth_index one_half 1 8 (1 / 2)
        \<lparr>alignment = [''AW'', ''A-'', ''A-'', ''W-''], counter = 0, temp = 1, ki = 0, ku = 0\<rparr>) =
     Some [''AW'', ''A-'', ''A-'', ''-W''] \<and>
   iterate blosum50_AEGHPW fourth_index one_half [''AW'', ''A-'', ''A-'', ''W-''] 2 (1 / 2) 0 8 =
     Some (- 26, [''AW'', ''A-'', ''A-'', ''-W''])"
  by (simp add: iterate_def start_def coerced_def cooling.simps numRealignedSequences_def
      cycle_snapshot scoreAlignment_snapshot candidate_snapshot scoreAlignment_candidate
      acceptance_rejects)

section \<open>Reduction to pairwise Needleman--Wunsch\<close>

lemma scoreColumns_single:
  assumes "i < length a" "j < length b" "gap \<notin> set a" "gap \<notin> set b"
    and "B (a ! i) (b ! j) = Some v"
  shows "scoreColumns B [a] [b] i j g = Some v"
proof -
  have "a ! i \<noteq> gap" "b ! j \<noteq> gap"
    using assms(1-4) by (metis nth_mem)+
  then show ?thesis
    using assms(1,2,5) by (simp add: scoreColumns_def item_def pairTerm_def)
qed

lemma weights_nw:
  assumes w: "weights B [a] [b] d (length a) (length b) = Some (f, t)"
    and ga: "gap \<notin> set a" and gb: "gap \<notin> set b"
    and sB: "\<forall>p \<in> set a. \<forall>q \<in> set b. B p q = Some (s p q)"
  shows "i \<le> length a \<Longrightarrow> j \<le> length b \<Longrightarrow> f ! i ! j = nw_F s d a b i j"
proof (induction "i + j" arbitrary: i j rule: less_induct)
  case less
  have fl: "filled B [a] [b] d (f, t) i j"
    using weights_filled [OF w] less.prems by simp
  show ?case
  proof (cases i)
    case 0
    then show ?thesis using fl by (simp add: filled_def)
  next
    case (Suc i')
    show ?thesis
    proof (cases j)
      case 0
      then show ?thesis using fl Suc by (simp add: filled_def)
    next
      case (Suc j')
      note i = \<open>i = Suc i'\<close> and j = \<open>j = Suc j'\<close>
      have "B (a ! i') (b ! j') = Some (s (a ! i') (b ! j'))"
        using sB less.prems i j by simp
      then have sc: "scoreColumns B [a] [b] i' j' 8 = Some (s (a ! i') (b ! j'))"
        using less.prems i j ga gb by (intro scoreColumns_single) simp_all
      have d: "f ! i' ! j' = nw_F s d a b i' j'"
        by (rule less.hyps) (use i j less.prems in simp_all)
      have tp: "f ! i' ! Suc j' = nw_F s d a b i' (Suc j')"
        by (rule less.hyps) (use i j less.prems in simp_all)
      have lf: "f ! Suc i' ! j' = nw_F s d a b (Suc i') j'"
        by (rule less.hyps) (use i j less.prems in simp_all)
      show ?thesis
        using fl sc d tp lf unfolding i j by (simp add: filled_def Let_def)
    qed
  qed
qed

lemma weights_nw_move:
  assumes w: "weights B [a] [b] d (length a) (length b) = Some (f, t)"
    and ga: "gap \<notin> set a" and gb: "gap \<notin> set b"
    and sB: "\<forall>p \<in> set a. \<forall>q \<in> set b. B p q = Some (s p q)"
    and i: "Suc i \<le> length a" and j: "Suc j \<le> length b"
  shows "t ! Suc i ! Suc j =
     (if nw_F s d a b i j + s (a ! i) (b ! j) \<ge> nw_F s d a b i (Suc j) - d \<and>
         nw_F s d a b i j + s (a ! i) (b ! j) \<ge> nw_F s d a b (Suc i) j - d then D
      else if nw_F s d a b i (Suc j) - d \<ge> nw_F s d a b (Suc i) j - d then T else L)"
proof -
  have fl: "filled B [a] [b] d (f, t) (Suc i) (Suc j)"
    using weights_filled [OF w] i j by simp
  have "B (a ! i) (b ! j) = Some (s (a ! i) (b ! j))"
    using sB i j by simp
  then have sc: "scoreColumns B [a] [b] i j 8 = Some (s (a ! i) (b ! j))"
    using i j ga gb by (intro scoreColumns_single) simp_all
  have d: "f ! i ! j = nw_F s d a b i j"
    by (rule weights_nw [OF w ga gb sB]) (use i j in simp_all)
  have tp: "f ! i ! Suc j = nw_F s d a b i (Suc j)"
    by (rule weights_nw [OF w ga gb sB]) (use i j in simp_all)
  have lf: "f ! Suc i ! j = nw_F s d a b (Suc i) j"
    by (rule weights_nw [OF w ga gb sB]) (use i j in simp_all)
  show ?thesis
    using fl sc d tp lf by (simp add: filled_def Let_def)
qed

lemma column_single: "i < length a \<Longrightarrow> column [a] (int i) = Some [a ! i]"
  using column_Some [of "int i" "[a]"] by simp

lemma traceback_nw:
  assumes w: "weights B [a] [b] d (length a) (length b) = Some (f, t)"
    and ga: "gap \<notin> set a" and gb: "gap \<notin> set b"
    and sB: "\<forall>p \<in> set a. \<forall>q \<in> set b. B p q = Some (s p q)"
  shows "i \<le> length a \<Longrightarrow> j \<le> length b \<Longrightarrow>
    traceback t [a] [b] (int i) (int j) [u] [v] =
      Some ([fst (nw_path s d a b i j) @ u], [snd (nw_path s d a b i j) @ v])"
proof (induction "i + j" arbitrary: i j u v rule: less_induct)
  case less
  have b: "borders t (length a) (length b)"
    using w by (rule weights_borders)
  have ti: "py_item t (int i) = Some (t ! i)"
    using b less.prems by (simp add: py_item_row borders_def)
  have tij: "py_item (t ! i) (int j) = Some (t ! i ! j)"
    using b less.prems by (simp add: py_item_row borders_def)
  show ?case
  proof (cases i)
    case 0
    note i = this
    show ?thesis
    proof (cases j)
      case 0
      then show ?thesis using i by (subst traceback.simps) simp
    next
      case (Suc j')
      have m: "t ! 0 ! Suc j' = L"
        using b less.prems Suc by (simp add: borders_def)
      have c: "column [b] (int j') = Some [b ! j']"
        using less.prems Suc by (simp add: column_single)
      have IH: "traceback t [a] [b] (int 0) (int j') [gap # u] [b ! j' # v] =
          Some ([fst (nw_path s d a b 0 j') @ gap # u], [snd (nw_path s d a b 0 j') @ b ! j' # v])"
        by (rule less.hyps) (use i Suc less.prems in simp_all)
      show ?thesis
        using ti tij m c IH unfolding i Suc
        by (subst traceback.simps) (simp add: prepend_def nw_extend_def)
    qed
  next
    case (Suc i')
    note i = this
    have cx: "column [a] (int i') = Some [a ! i']"
      using less.prems i by (simp add: column_single)
    show ?thesis
    proof (cases j)
      case 0
      have m: "t ! Suc i' ! 0 = T"
        using b less.prems i by (simp add: borders_def)
      have IH: "traceback t [a] [b] (int i') (int 0) [a ! i' # u] [gap # v] =
          Some ([fst (nw_path s d a b i' 0) @ a ! i' # u], [snd (nw_path s d a b i' 0) @ gap # v])"
        by (rule less.hyps) (use i 0 less.prems in simp_all)
      show ?thesis
        using ti tij m cx IH unfolding i 0
        by (subst traceback.simps) (simp add: prepend_def nw_extend_def)
    next
      case (Suc j')
      note j = this
      have cy: "column [b] (int j') = Some [b ! j']"
        using less.prems j by (simp add: column_single)
      let ?diag = "nw_F s d a b i' j' + s (a ! i') (b ! j')"
      let ?top = "nw_F s d a b i' (Suc j') - d"
      let ?left = "nw_F s d a b (Suc i') j' - d"
      have m: "t ! Suc i' ! Suc j' =
          (if ?diag \<ge> ?top \<and> ?diag \<ge> ?left then D else if ?top \<ge> ?left then T else L)"
        by (rule weights_nw_move [OF w ga gb sB]) (use i j less.prems in simp_all)
      have IHd: "traceback t [a] [b] (int i') (int j') [a ! i' # u] [b ! j' # v] =
          Some ([fst (nw_path s d a b i' j') @ a ! i' # u],
                [snd (nw_path s d a b i' j') @ b ! j' # v])"
        by (rule less.hyps) (use i j less.prems in simp_all)
      have IHt: "traceback t [a] [b] (int i') (int (Suc j')) [a ! i' # u] [gap # v] =
          Some ([fst (nw_path s d a b i' (Suc j')) @ a ! i' # u],
                [snd (nw_path s d a b i' (Suc j')) @ gap # v])"
        by (rule less.hyps) (use i j less.prems in simp_all)
      have IHl: "traceback t [a] [b] (int (Suc i')) (int j') [gap # u] [b ! j' # v] =
          Some ([fst (nw_path s d a b (Suc i') j') @ gap # u],
                [snd (nw_path s d a b (Suc i') j') @ b ! j' # v])"
        by (rule less.hyps) (use i j less.prems in simp_all)
      consider (d) "?diag \<ge> ?top \<and> ?diag \<ge> ?left"
        | (t) "\<not> (?diag \<ge> ?top \<and> ?diag \<ge> ?left)" "?top \<ge> ?left"
        | (l) "\<not> (?diag \<ge> ?top \<and> ?diag \<ge> ?left)" "\<not> ?top \<ge> ?left"
        by blast
      then show ?thesis
      proof cases
        case d
        then have "t ! Suc i' ! Suc j' = D" using m by simp
        then show ?thesis
          using ti tij cx cy IHd d unfolding i j
          by (subst traceback.simps) (simp add: prepend_def nw_extend_def)
      next
        case t
        then have "t ! Suc i' ! Suc j' = T" using m by simp
        then show ?thesis
          using ti tij cx cy IHt t unfolding i j
          by (subst traceback.simps) (simp add: prepend_def nw_extend_def)
      next
        case l
        then have "t ! Suc i' ! Suc j' = L" using m by simp
        moreover have "nw_path s d a b (Suc i') (Suc j') =
            nw_extend gap (b ! j') (nw_path s d a b (Suc i') j')"
          using l by auto
        ultimately show ?thesis
          using ti tij cx cy IHl unfolding i j
          by (subst traceback.simps) (simp add: prepend_def nw_extend_def del: nw_path.simps)
      qed
    qed
  qed
qed

text \<open>
  Claim C2. For two bare sequences \<open>a\<close> and \<open>b\<close> (no gap symbol) whose symbol pairs have the
  entries \<open>s\<close> in the table, and every gap penalty \<open>d\<close>, \<open>alignProfiles([a], [b], d)\<close> returns
  the score and the two gapped sequences of classical Needleman--Wunsch.
\<close>

theorem alignProfiles_needleman_wunsch:
  assumes "gap \<notin> set a" and "gap \<notin> set b"
    and "\<forall>p \<in> set a. \<forall>q \<in> set b. B p q = Some (s p q)"
  shows "alignProfiles B [a] [b] d =
    Some (fst (needleman_wunsch s d a b),
          [fst (snd (needleman_wunsch s d a b))], [snd (snd (needleman_wunsch s d a b))])"
proof -
  have c: "covers B [a] [b]" using assms(3) by (simp add: covers_def)
  obtain f t where w: "weights B [a] [b] d (length a) (length b) = Some (f, t)"
    using weights_defined [of "[a]" "[b]" B d] c by (auto simp: rectangular_def)
  have s: "f ! length a ! length b = nw_F s d a b (length a) (length b)"
    by (rule weights_nw [OF w assms]) simp_all
  have "traceback t [a] [b] (int (length a)) (int (length b)) [[]] [[]] =
      Some ([fst (nw_path s d a b (length a) (length b)) @ []],
            [snd (nw_path s d a b (length a) (length b)) @ []])"
    by (rule traceback_nw [OF w assms]) simp_all
  then show ?thesis
    using w s by (simp add: alignProfiles_unfold needleman_wunsch_def)
qed

lemma alignProfiles_golden:
  "alignProfiles blosum50_AEGHPW [''HEAGAWGHEE''] [''PAWHEAE''] 8 =
   Some (1, [''HEAGAWGHE-E''], [''--P-AW-HEAE''])"
  by code_simp

theorem alignProfiles_needleman_wunsch_witness:
  "gap \<notin> set ''HEAGAWGHEE'' \<and> gap \<notin> set ''PAWHEAE'' \<and>
   alignProfiles blosum50_AEGHPW [''HEAGAWGHEE''] [''PAWHEAE''] 8 =
     Some (1, [''HEAGAWGHE-E''], [''--P-AW-HEAE'']) \<and>
   needleman_wunsch (\<lambda>p q. the (blosum50_AEGHPW p q)) 8 ''HEAGAWGHEE'' ''PAWHEAE'' =
     (1, ''HEAGAWGHE-E'', ''--P-AW-HEAE'')"
proof -
  have g: "gap \<notin> set ''HEAGAWGHEE''" "gap \<notin> set ''PAWHEAE''"
    by (simp_all add: gap_def)
  have "\<forall>p \<in> set ''HEAGAWGHEE''. \<forall>q \<in> set ''PAWHEAE''. blosum50_AEGHPW p q \<noteq> None"
    by code_simp
  then have e: "\<forall>p \<in> set ''HEAGAWGHEE''. \<forall>q \<in> set ''PAWHEAE''.
      blosum50_AEGHPW p q = Some (the (blosum50_AEGHPW p q))"
    by auto
  show ?thesis
    using alignProfiles_needleman_wunsch [OF g e, of 8] g alignProfiles_golden
    by (simp add: prod_eq_iff)
qed

section \<open>The refinement loop keeps the sequences\<close>

lemma strip_strip: "strip (strip r) = strip r"
  by (simp add: strip_def)


lemma pop_SomeD:
  "pop xs i = Some (a, ys) \<Longrightarrow> i < length xs \<and> a = xs ! i \<and> ys = take i xs @ drop (Suc i) xs"
  by (auto simp: pop_def split: if_splits)




















end
